theory Spec2Isabelle
  imports Complex_Main
begin

section \<open>JavaScript values\<close>

text \<open>
  The cells of a table are JavaScript values of type \<open>any\<close>. The model keeps the scalar
  ones: \<open>null\<close>, \<open>undefined\<close>, booleans, numbers and strings.

  Numbers are \<open>NaN\<close>, one of the two infinities, or an exact real. The rounding of
  IEEE-754 doubles, overflow and the signed zero are not modelled: arithmetic on finite numbers
  is exact, and the zero of the model is the positive zero. The model and the code agree
  wherever every step of the code is exact in doubles, and the results below that depend on
  the arithmetic are stated for such inputs. Strings are lists of 8-bit characters (the
  Latin-1 range of the UTF-16 code units); case conversion covers the ASCII letters.
\<close>

datatype jsnum = NaN | Fin real | PInf | NInf

datatype cell = CNull | CUndef | CBool bool | CNum jsnum | CStr string

datatype js_error = TypeError

definition isNaN :: "jsnum \<Rightarrow> bool" where
  "isNaN x = (x = NaN)"

text \<open>
  The arithmetic operators. An operation on \<open>NaN\<close> gives \<open>NaN\<close>, and so do
  \<open>Infinity - Infinity\<close>, \<open>Infinity * 0\<close>, \<open>0 / 0\<close> and \<open>Infinity / Infinity\<close>.
\<close>

fun js_neg :: "jsnum \<Rightarrow> jsnum" where
  "js_neg NaN = NaN"
| "js_neg (Fin a) = Fin (- a)"
| "js_neg PInf = NInf"
| "js_neg NInf = PInf"

fun js_add :: "jsnum \<Rightarrow> jsnum \<Rightarrow> jsnum" where
  "js_add (Fin a) (Fin b) = Fin (a + b)"
| "js_add NaN _ = NaN"
| "js_add _ NaN = NaN"
| "js_add PInf NInf = NaN"
| "js_add NInf PInf = NaN"
| "js_add PInf _ = PInf"
| "js_add _ PInf = PInf"
| "js_add NInf _ = NInf"
| "js_add _ NInf = NInf"

fun js_sub :: "jsnum \<Rightarrow> jsnum \<Rightarrow> jsnum" where
  "js_sub (Fin a) (Fin b) = Fin (a - b)"
| "js_sub NaN _ = NaN"
| "js_sub _ NaN = NaN"
| "js_sub PInf PInf = NaN"
| "js_sub NInf NInf = NaN"
| "js_sub PInf _ = PInf"
| "js_sub _ PInf = NInf"
| "js_sub NInf _ = NInf"
| "js_sub _ NInf = PInf"

fun js_mul :: "jsnum \<Rightarrow> jsnum \<Rightarrow> jsnum" where
  "js_mul (Fin a) (Fin b) = Fin (a * b)"
| "js_mul NaN _ = NaN"
| "js_mul _ NaN = NaN"
| "js_mul PInf (Fin b) = (if b = 0 then NaN else if 0 < b then PInf else NInf)"
| "js_mul NInf (Fin b) = (if b = 0 then NaN else if 0 < b then NInf else PInf)"
| "js_mul (Fin a) PInf = (if a = 0 then NaN else if 0 < a then PInf else NInf)"
| "js_mul (Fin a) NInf = (if a = 0 then NaN else if 0 < a then NInf else PInf)"
| "js_mul PInf PInf = PInf"
| "js_mul PInf NInf = NInf"
| "js_mul NInf PInf = NInf"
| "js_mul NInf NInf = PInf"

fun js_div :: "jsnum \<Rightarrow> jsnum \<Rightarrow> jsnum" where
  "js_div (Fin a) (Fin b) =
     (if b = 0 then (if a = 0 then NaN else if 0 < a then PInf else NInf) else Fin (a / b))"
| "js_div NaN _ = NaN"
| "js_div _ NaN = NaN"
| "js_div (Fin a) PInf = Fin 0"
| "js_div (Fin a) NInf = Fin 0"
| "js_div PInf (Fin b) = (if 0 \<le> b then PInf else NInf)"
| "js_div NInf (Fin b) = (if 0 \<le> b then NInf else PInf)"
| "js_div PInf PInf = NaN"
| "js_div PInf NInf = NaN"
| "js_div NInf PInf = NaN"
| "js_div NInf NInf = NaN"

fun js_abs :: "jsnum \<Rightarrow> jsnum" where
  "js_abs (Fin a) = Fin \<bar>a\<bar>"
| "js_abs NaN = NaN"
| "js_abs PInf = PInf"
| "js_abs NInf = PInf"

fun js_sqrt :: "jsnum \<Rightarrow> jsnum" where
  "js_sqrt (Fin a) = (if a < 0 then NaN else Fin (sqrt a))"
| "js_sqrt NaN = NaN"
| "js_sqrt PInf = PInf"
| "js_sqrt NInf = NaN"

text \<open>The comparison operators: every comparison with \<open>NaN\<close> is false.\<close>

fun js_lt :: "jsnum \<Rightarrow> jsnum \<Rightarrow> bool" where
  "js_lt (Fin a) (Fin b) = (a < b)"
| "js_lt NInf (Fin b) = True"
| "js_lt NInf PInf = True"
| "js_lt (Fin a) PInf = True"
| "js_lt _ _ = False"

fun js_le :: "jsnum \<Rightarrow> jsnum \<Rightarrow> bool" where
  "js_le (Fin a) (Fin b) = (a \<le> b)"
| "js_le NInf (Fin b) = True"
| "js_le NInf PInf = True"
| "js_le NInf NInf = True"
| "js_le (Fin a) PInf = True"
| "js_le PInf PInf = True"
| "js_le _ _ = False"

definition js_gt :: "jsnum \<Rightarrow> jsnum \<Rightarrow> bool" where
  "js_gt a b = js_lt b a"

definition js_ge :: "jsnum \<Rightarrow> jsnum \<Rightarrow> bool" where
  "js_ge a b = js_le b a"

text \<open>
  \<open>Number(x.toFixed(d))\<close>: the decimal with \<open>d\<close> fraction digits nearest to \<open>x\<close>, a tie
  going away from zero; from \<open>10^21\<close> on, and for \<open>NaN\<close> and the infinities, \<open>toFixed\<close>
  prints the number itself. The code rounds the double that \<open>x\<close> is, the model the exact
  real: the two agree when \<open>x\<close> is exact in doubles.
\<close>

definition round_half_away :: "nat \<Rightarrow> real \<Rightarrow> real" where
  "round_half_away d r = sgn r * real_of_int \<lfloor>\<bar>r\<bar> * 10 ^ d + 1 / 2\<rfloor> / 10 ^ d"

definition fixed_value :: "nat \<Rightarrow> real \<Rightarrow> real" where
  "fixed_value d r = (if \<bar>r\<bar> \<ge> 10 ^ 21 then r else round_half_away d r)"

fun js_toFixed :: "nat \<Rightarrow> jsnum \<Rightarrow> jsnum" where
  "js_toFixed d NaN = NaN"
| "js_toFixed d (Fin r) = Fin (fixed_value d r)"
| "js_toFixed d PInf = PInf"
| "js_toFixed d NInf = NInf"

text \<open>Strict equality \<open>===\<close> on cells: \<open>NaN\<close> is not equal to itself.\<close>

definition strict_eq :: "cell \<Rightarrow> cell \<Rightarrow> bool" where
  "strict_eq a b = (a = b \<and> a \<noteq> CNum NaN)"

text \<open>Reading an array at an index: out of range the result is \<open>undefined\<close>.\<close>

definition js_index :: "cell list \<Rightarrow> nat \<Rightarrow> cell" where
  "js_index xs i = (if i < length xs then xs ! i else CUndef)"

definition num_index :: "jsnum list \<Rightarrow> int \<Rightarrow> jsnum" where
  "num_index xs i = (if 0 \<le> i \<and> i < int (length xs) then xs ! nat i else NaN)"

text \<open>Writing an array at an index: past the end the array grows, the gap reading \<open>undefined\<close>.\<close>

definition js_set :: "cell list \<Rightarrow> nat \<Rightarrow> cell \<Rightarrow> cell list" where
  "js_set xs i v =
     (if i < length xs then xs[i := v] else xs @ replicate (i - length xs) CUndef @ [v])"

text \<open>\<open>Array.prototype.reduce\<close> without an initial value raises on an empty array.\<close>

fun js_reduce1 :: "('a \<Rightarrow> 'a \<Rightarrow> 'a) \<Rightarrow> 'a list \<Rightarrow> js_error + 'a" where
  "js_reduce1 f [] = Inl TypeError"
| "js_reduce1 f (x # xs) = Inr (foldl f x xs)"

text \<open>
  \<open>sort((a, b) => a - b)\<close> as a stable insertion sort: \<open>a - b\<close> is negative exactly when
  \<open>a < b\<close>. On an array without \<open>NaN\<close> every implementation returns the ascending order;
  with a \<open>NaN\<close> the comparator is inconsistent and the standard leaves the order to the
  implementation, so the order that the model gives there is one of the permitted ones.
\<close>

fun num_insert :: "jsnum \<Rightarrow> jsnum list \<Rightarrow> jsnum list" where
  "num_insert x [] = [x]"
| "num_insert x (y # ys) = (if js_lt x y then x # y # ys else y # num_insert x ys)"

definition num_sort :: "jsnum list \<Rightarrow> jsnum list" where
  "num_sort xs = foldl (\<lambda>acc x. num_insert x acc) [] xs"

section \<open>Strings\<close>

definition is_ws :: "char \<Rightarrow> bool" where
  "is_ws c = (c \<in> set [CHR 0x09, CHR 0x0A, CHR 0x0B, CHR 0x0C, CHR 0x0D, CHR 0x20, CHR 0xA0])"

definition js_trim :: "string \<Rightarrow> string" where
  "js_trim s = rev (dropWhile is_ws (rev (dropWhile is_ws s)))"

definition lower_char :: "char \<Rightarrow> char" where
  "lower_char c =
     (case map_of (zip ''ABCDEFGHIJKLMNOPQRSTUVWXYZ'' ''abcdefghijklmnopqrstuvwxyz'') c of
        Some d \<Rightarrow> d | None \<Rightarrow> c)"

definition js_toLowerCase :: "string \<Rightarrow> string" where
  "js_toLowerCase s = map lower_char s"

fun starts_with :: "string \<Rightarrow> string \<Rightarrow> bool" where
  "starts_with s [] = True"
| "starts_with [] (k # ks) = False"
| "starts_with (c # cs) (k # ks) = (c = k \<and> starts_with cs ks)"

fun js_includes :: "string \<Rightarrow> string \<Rightarrow> bool" where
  "js_includes [] k = (k = [])"
| "js_includes (c # cs) k = (starts_with (c # cs) k \<or> js_includes cs k)"

definition is_digit :: "char \<Rightarrow> bool" where
  "is_digit c = (c \<in> set ''0123456789'')"

definition digit_val :: "char \<Rightarrow> nat" where
  "digit_val c = of_char c - 48"

definition digits_val :: "string \<Rightarrow> nat" where
  "digits_val ds = foldl (\<lambda>a c. 10 * a + digit_val c) 0 ds"

text \<open>
  The decimal literals of \<open>Number\<close> and \<open>parseFloat\<close>: the word \<open>Infinity\<close>, or digits, an
  optional fraction and an optional exponent, after an optional sign. A scan returns the value
  of the longest literal the string starts with and the rest of the string.
\<close>

definition scan_exponent :: "string \<Rightarrow> int \<times> string" where
  "scan_exponent r =
     (case r of
        [] \<Rightarrow> (0, r)
      | c # r1 \<Rightarrow>
          if c = CHR ''e'' \<or> c = CHR ''E'' then
            (let (sg, r2) = (case r1 of
                               [] \<Rightarrow> (1, r1)
                             | d # t \<Rightarrow> if d = CHR ''-'' then (- 1, t)
                                        else if d = CHR ''+'' then (1, t) else (1, r1));
                 ds = takeWhile is_digit r2
             in if ds = [] then (0, r) else (sg * int (digits_val ds), dropWhile is_digit r2))
          else (0, r))"

definition scale10 :: "real \<Rightarrow> int \<Rightarrow> real" where
  "scale10 m e = (if e \<ge> 0 then m * 10 ^ nat e else m / 10 ^ nat (- e))"

definition scan_unsigned :: "string \<Rightarrow> (jsnum \<times> string) option" where
  "scan_unsigned s =
     (if starts_with s ''Infinity'' then Some (PInf, drop 8 s)
      else (let ip = takeWhile is_digit s;
                r1 = dropWhile is_digit s;
                (fp, r2) = (case r1 of
                              [] \<Rightarrow> ([], r1)
                            | c # r \<Rightarrow> if c = CHR ''.''
                                       then (takeWhile is_digit r, dropWhile is_digit r)
                                       else ([], r1))
            in if ip = [] \<and> fp = [] then None
               else (let m = real (digits_val ip) + real (digits_val fp) / 10 ^ length fp;
                         (e, r3) = scan_exponent r2
                     in Some (Fin (scale10 m e), r3))))"

definition scan_signed :: "string \<Rightarrow> (jsnum \<times> string) option" where
  "scan_signed s =
     (case s of
        [] \<Rightarrow> None
      | c # r \<Rightarrow>
          if c = CHR ''-'' then map_option (\<lambda>(v, t). (js_neg v, t)) (scan_unsigned r)
          else if c = CHR ''+'' then scan_unsigned r
          else scan_unsigned s)"

definition js_parseFloat :: "string \<Rightarrow> jsnum" where
  "js_parseFloat s =
     (case scan_signed (dropWhile is_ws s) of None \<Rightarrow> NaN | Some (v, r) \<Rightarrow> v)"

text \<open>The integer literals with a radix prefix (\<open>0x\<close>, \<open>0o\<close>, \<open>0b\<close>).\<close>

definition radix_digit :: "nat \<Rightarrow> char \<Rightarrow> nat option" where
  "radix_digit b c =
     (case map_of (zip ''0123456789abcdefABCDEF''
                       [0, 1, 2, 3, 4, 5, 6, 7, 8, 9, 10, 11, 12, 13, 14, 15, 10, 11, 12, 13, 14, 15]) c of
        None \<Rightarrow> None
      | Some v \<Rightarrow> if v < b then Some v else None)"

definition radix_val :: "nat \<Rightarrow> string \<Rightarrow> nat" where
  "radix_val b ds = foldl (\<lambda>a c. b * a + (case radix_digit b c of Some v \<Rightarrow> v | None \<Rightarrow> 0)) 0 ds"

definition radix_prefix :: "string \<Rightarrow> (nat \<times> string) option" where
  "radix_prefix s =
     (case s of
        z # x # r \<Rightarrow>
          if z = CHR ''0'' \<and> (x = CHR ''x'' \<or> x = CHR ''X'') then Some (16, r)
          else if z = CHR ''0'' \<and> (x = CHR ''o'' \<or> x = CHR ''O'') then Some (8, r)
          else if z = CHR ''0'' \<and> (x = CHR ''b'' \<or> x = CHR ''B'') then Some (2, r)
          else None
      | _ \<Rightarrow> None)"

definition number_of_string :: "string \<Rightarrow> jsnum" where
  "number_of_string s =
     (let t = js_trim s in
      if t = [] then Fin 0
      else (case radix_prefix t of
              Some (b, r) \<Rightarrow>
                if r \<noteq> [] \<and> (\<forall>c \<in> set r. radix_digit b c \<noteq> None)
                then Fin (real (radix_val b r)) else NaN
            | None \<Rightarrow>
                (case scan_signed t of
                   Some (v, r) \<Rightarrow> if r = [] then v else NaN
                 | None \<Rightarrow> NaN)))"

text \<open>\<open>parseInt(s)\<close> without a radix: an optional sign, then hexadecimal digits after
  \<open>0x\<close>, decimal digits otherwise.\<close>

definition js_parseInt :: "string \<Rightarrow> jsnum" where
  "js_parseInt s =
     (let t = dropWhile is_ws s;
          (sg, u) = (case t of
                       [] \<Rightarrow> (1, t)
                     | c # r \<Rightarrow> if c = CHR ''-'' then (- 1, r)
                                else if c = CHR ''+'' then (1, r) else (1, t));
          (b, w) = (case radix_prefix u of
                      Some (b, r) \<Rightarrow> if b = 16 then (16, r) else (10, u)
                    | None \<Rightarrow> (10, u));
          ds = takeWhile (\<lambda>c. radix_digit b c \<noteq> None) w
      in if ds = [] then NaN else Fin (sg * real (radix_val b ds)))"

text \<open>
  \<open>String(x)\<close> for a number: positional decimal notation, the fraction cut after 17 digits.
  The exponent notation that JavaScript uses for very large and very small magnitudes is not
  modelled.
\<close>

definition digit_char :: "nat \<Rightarrow> char" where
  "digit_char d = ''0123456789'' ! (d mod 10)"

fun nat_str :: "nat \<Rightarrow> string" where
  "nat_str n = (if n < 10 then [digit_char n] else nat_str (n div 10) @ [digit_char (n mod 10)])"

declare nat_str.simps [simp del]

fun frac_digits :: "nat \<Rightarrow> real \<Rightarrow> string" where
  "frac_digits 0 f = []"
| "frac_digits (Suc k) f =
     (if f = 0 then []
      else (let d = nat \<lfloor>f * 10\<rfloor> in digit_char d # frac_digits k (f * 10 - real d)))"

definition num_str :: "real \<Rightarrow> string" where
  "num_str r =
     (let a = \<bar>r\<bar>; ip = nat \<lfloor>a\<rfloor>; fs = frac_digits 17 (a - real ip)
      in (if r < 0 then ''-'' else '''') @ nat_str ip @ (if fs = [] then [] else CHR ''.'' # fs))"

fun js_String :: "cell \<Rightarrow> string" where
  "js_String CNull = ''null''"
| "js_String CUndef = ''undefined''"
| "js_String (CBool b) = (if b then ''true'' else ''false'')"
| "js_String (CNum NaN) = ''NaN''"
| "js_String (CNum (Fin r)) = num_str r"
| "js_String (CNum PInf) = ''Infinity''"
| "js_String (CNum NInf) = ''-Infinity''"
| "js_String (CStr s) = s"

fun js_Number :: "cell \<Rightarrow> jsnum" where
  "js_Number CNull = Fin 0"
| "js_Number CUndef = NaN"
| "js_Number (CBool b) = (if b then Fin 1 else Fin 0)"
| "js_Number (CNum x) = x"
| "js_Number (CStr s) = number_of_string s"

section \<open>The data model\<close>

datatype coltype = Numerical | Categorical | Date | Text

record DataColumn =
  name :: string
  ctype :: coltype
  vals :: "cell list"
  missingCount :: nat
  missingRate :: jsnum

record DataSummary =
  totalRows :: nat
  totalColumns :: nat
  columns :: "DataColumn list"
  fileName :: string

record NumericalStats =
  mean :: jsnum
  median :: jsnum
  std :: jsnum
  min_val :: jsnum
  max_val :: jsnum
  q1 :: jsnum
  q3 :: jsnum
  outliers :: "jsnum list"

record TopValue =
  tv_value :: string
  tv_count :: nat
  percentage :: jsnum

record CategoricalStats =
  uniqueCount :: nat
  topValues :: "TopValue list"

text \<open>
  A \<open>Map\<close> used as a frequency table: the keys in insertion order, each with its count.
  \<open>map_inc k m\<close> is \<open>m.set(k, (m.get(k) || 0) + 1)\<close>.
\<close>

fun map_inc :: "'k \<Rightarrow> ('k \<times> nat) list \<Rightarrow> ('k \<times> nat) list" where
  "map_inc k [] = [(k, 1)]"
| "map_inc k ((k', n) # m) = (if k = k' then (k', n + 1) # m else (k', n) # map_inc k m)"

definition frequencies :: "'k list \<Rightarrow> ('k \<times> nat) list" where
  "frequencies xs = foldl (\<lambda>m x. map_inc x m) [] xs"

section \<open>DataAnalyzer\<close>

text \<open>The values that \<open>calculateNumericalStats\<close> keeps, coerced to numbers.\<close>

definition numericValues :: "cell list \<Rightarrow> jsnum list" where
  "numericValues values =
     map js_Number
       (filter (\<lambda>v. \<not> isNaN (js_Number v) \<and> v \<noteq> CNull \<and> v \<noteq> CUndef \<and> v \<noteq> CStr []) values)"

definition calculateMedian :: "jsnum list \<Rightarrow> jsnum" where
  "calculateMedian sortedValues =
     (let mid = int (length sortedValues div 2) in
      if length sortedValues mod 2 = 0
      then js_div (js_add (num_index sortedValues (mid - 1)) (num_index sortedValues mid)) (Fin 2)
      else num_index sortedValues mid)"

definition calculatePercentile :: "jsnum list \<Rightarrow> real \<Rightarrow> jsnum" where
  "calculatePercentile sortedValues percentile =
     (let index = (percentile / 100) * (real (length sortedValues) - 1);
          lower = \<lfloor>index\<rfloor>;
          upper = \<lceil>index\<rceil>
      in if lower = upper then num_index sortedValues lower
         else (let weight = index - real_of_int lower
               in js_add (js_mul (num_index sortedValues lower) (Fin (1 - weight)))
                         (js_mul (num_index sortedValues upper) (Fin weight))))"

definition calculateNumericalStats :: "cell list \<Rightarrow> NumericalStats" where
  "calculateNumericalStats values =
     (let nums = numericValues values in
      if length nums = 0
      then \<lparr>mean = Fin 0, median = Fin 0, std = Fin 0, min_val = Fin 0, max_val = Fin 0,
            q1 = Fin 0, q3 = Fin 0, outliers = []\<rparr>
      else (let sorted = num_sort nums;
                len = Fin (real (length nums));
                mean = js_div (foldl js_add (Fin 0) nums) len;
                median = calculateMedian sorted;
                std = js_sqrt (js_div (foldl (\<lambda>sum val. js_add sum (js_mul (js_sub val mean) (js_sub val mean)))
                                             (Fin 0) nums) len);
                q1 = calculatePercentile sorted 25;
                q3 = calculatePercentile sorted 75;
                iqr = js_sub q3 q1;
                outliers = filter (\<lambda>val. js_lt val (js_sub q1 (js_mul (Fin 1.5) iqr))
                                        \<or> js_gt val (js_add q3 (js_mul (Fin 1.5) iqr))) nums
            in \<lparr>mean = js_toFixed 2 mean, median = js_toFixed 2 median, std = js_toFixed 2 std,
                min_val = num_index sorted 0, max_val = num_index sorted (int (length sorted) - 1),
                q1 = js_toFixed 2 q1, q3 = js_toFixed 2 q3, outliers = outliers\<rparr>))"

text \<open>The values that \<open>calculateCategoricalStats\<close> keeps.\<close>

definition nonNullValues :: "cell list \<Rightarrow> cell list" where
  "nonNullValues values = filter (\<lambda>v. v \<noteq> CNull \<and> v \<noteq> CUndef \<and> v \<noteq> CStr []) values"

definition calculateCategoricalStats :: "cell list \<Rightarrow> CategoricalStats" where
  "calculateCategoricalStats values =
     (let nonNull = nonNullValues values;
          counts = frequencies (map js_String nonNull);
          top = map (\<lambda>(v, c). \<lparr>tv_value = v, tv_count = c,
                                 percentage = js_toFixed 1
                                   (js_mul (js_div (Fin (real c)) (Fin (real (length nonNull)))) (Fin 100))\<rparr>)
                    (take 10 (sort_key (\<lambda>e. - int (snd e)) counts))
      in \<lparr>uniqueCount = length counts, topValues = top\<rparr>)"

text \<open>The rows that \<open>calculatePearsonCorrelation\<close> keeps: both coercions are not \<open>NaN\<close>.\<close>

definition pearson_pairs :: "cell list \<Rightarrow> cell list \<Rightarrow> (jsnum \<times> jsnum) list" where
  "pearson_pairs x y =
     filter (\<lambda>(a, b). \<not> isNaN a \<and> \<not> isNaN b)
       (map (\<lambda>i. (js_Number (x ! i), js_Number (js_index y i))) [0..<length x])"

definition pearson_numerator :: "(jsnum \<times> jsnum) list \<Rightarrow> jsnum" where
  "pearson_numerator pairs =
     (let n = Fin (real (length pairs));
          sumX = foldl (\<lambda>sum (a, b). js_add sum a) (Fin 0) pairs;
          sumY = foldl (\<lambda>sum (a, b). js_add sum b) (Fin 0) pairs;
          sumXY = foldl (\<lambda>sum (a, b). js_add sum (js_mul a b)) (Fin 0) pairs
      in js_sub (js_mul n sumXY) (js_mul sumX sumY))"

definition pearson_denominator :: "(jsnum \<times> jsnum) list \<Rightarrow> jsnum" where
  "pearson_denominator pairs =
     (let n = Fin (real (length pairs));
          sumX = foldl (\<lambda>sum (a, b). js_add sum a) (Fin 0) pairs;
          sumY = foldl (\<lambda>sum (a, b). js_add sum b) (Fin 0) pairs;
          sumX2 = foldl (\<lambda>sum (a, b). js_add sum (js_mul a a)) (Fin 0) pairs;
          sumY2 = foldl (\<lambda>sum (a, b). js_add sum (js_mul b b)) (Fin 0) pairs
      in js_sqrt (js_mul (js_sub (js_mul n sumX2) (js_mul sumX sumX))
                         (js_sub (js_mul n sumY2) (js_mul sumY sumY))))"

definition calculatePearsonCorrelation :: "cell list \<Rightarrow> cell list \<Rightarrow> jsnum" where
  "calculatePearsonCorrelation x y =
     (let pairs = pearson_pairs x y in
      if length pairs < 2 then Fin 0
      else (let numerator = pearson_numerator pairs;
                denominator = pearson_denominator pairs
            in if denominator = Fin 0 then Fin 0
               else js_toFixed 3 (js_div numerator denominator)))"

text \<open>
  The correlation object is a plain object used as a dictionary: it maps a column name to an
  inner object, which maps a column name to a coefficient. On a plain object the key
  \<open>__proto__\<close> is not a property of its own: assigning an object to it replaces the prototype
  of the object, assigning a number to it does nothing, and reading it gives the prototype.
  The model keeps the own properties of an object as a map and, for the correlation object,
  the inner object that an assignment has made its prototype.
\<close>

type_synonym correlation_row = "string \<rightharpoonup> jsnum"

record correlation_object =
  own_rows :: "string \<rightharpoonup> correlation_row"
  proto_row :: "correlation_row option"

text \<open>\<open>row[key] = x\<close> for a number \<open>x\<close>, and \<open>correlations[key] = row\<close>.\<close>

definition set_entry :: "correlation_row \<Rightarrow> string \<Rightarrow> jsnum \<Rightarrow> correlation_row" where
  "set_entry row key x = (if key = ''__proto__'' then row else row(key \<mapsto> x))"

definition set_row :: "correlation_object \<Rightarrow> string \<Rightarrow> correlation_row \<Rightarrow> correlation_object" where
  "set_row correlations key row =
     (if key = ''__proto__'' then correlations\<lparr>proto_row := Some row\<rparr>
      else correlations\<lparr>own_rows := (own_rows correlations)(key \<mapsto> row)\<rparr>)"

text \<open>
  For each \<open>col1\<close> a fresh inner object is stored under its name and then filled through
  \<open>correlations[col1.name]\<close>, one entry for each \<open>col2\<close>; a later column of the same name
  replaces it.
\<close>

definition correlation_row :: "DataColumn list \<Rightarrow> DataColumn \<Rightarrow> correlation_row" where
  "correlation_row numericalColumns col1 =
     foldl (\<lambda>row col2.
              set_entry row (name col2)
                (if name col1 = name col2 then Fin 1
                 else calculatePearsonCorrelation (vals col1) (vals col2)))
           Map.empty numericalColumns"

definition calculateCorrelations :: "DataSummary \<Rightarrow> correlation_object" where
  "calculateCorrelations data =
     (let numericalColumns = filter (\<lambda>col. ctype col = Numerical) (columns data) in
      foldl (\<lambda>correlations col1.
               set_row correlations (name col1) (correlation_row numericalColumns col1))
            \<lparr>own_rows = Map.empty, proto_row = None\<rparr> numericalColumns)"

text \<open>
  Reading \<open>correlations[a][b]\<close> as a coefficient: \<open>None\<close> stands for a read that gives no
  number. Under the key \<open>__proto__\<close> the correlation object gives its prototype, and an inner
  object gives a prototype that holds no coefficient.
\<close>

definition correlation_at :: "correlation_object \<Rightarrow> string \<Rightarrow> string \<Rightarrow> jsnum option" where
  "correlation_at correlations a b =
     (case (if a = ''__proto__'' then proto_row correlations else own_rows correlations a) of
        None \<Rightarrow> None
      | Some row \<Rightarrow> if b = ''__proto__'' then None else row b)"

text \<open>
  The duplicate pass of \<open>detectAnomalies\<close>: the values it keeps and its rate
  \<open>1 - uniqueValues.size / values.length\<close>.
\<close>

definition duplicate_values :: "cell list \<Rightarrow> cell list" where
  "duplicate_values values = filter (\<lambda>v. v \<noteq> CNull \<and> v \<noteq> CUndef \<and> v \<noteq> CStr []) values"

definition duplicateRate :: "cell list \<Rightarrow> jsnum" where
  "duplicateRate values =
     (let kept = duplicate_values values
      in js_sub (Fin 1) (js_div (Fin (real (length (remdups kept)))) (Fin (real (length kept)))))"

section \<open>DataCleaner\<close>

record ColumnCleaningReport =
  columnName :: string
  originalType :: coltype
  finalType :: coltype
  missingValuesImputed :: nat
  erroneousValuesFixed :: nat
  typeConverted :: bool
  imputationMethod :: "string option"

text \<open>The three fields of \<open>summary\<close> are kept in the report itself, prefixed.\<close>

record CleaningReport =
  totalRowsCleaned :: nat
  columnReports :: "ColumnCleaningReport list"
  summary_missingValuesImputed :: nat
  summary_erroneousValuesFixed :: nat
  summary_typesConverted :: nat

definition isMissing :: "cell \<Rightarrow> bool" where
  "isMissing value =
     (value = CNull \<or> value = CUndef \<or> value = CStr []
      \<or> (case value of CStr s \<Rightarrow> js_trim s = [] | _ \<Rightarrow> False))"

definition priceKeywords :: "string list" where
  "priceKeywords = [''price'', ''cost'', ''amount'', ''value'', ''fee'', ''charge'', ''rate'',
                    ''salary'', ''wage'', ''revenue'', ''income'']"

definition quantityKeywords :: "string list" where
  "quantityKeywords = [''quantity'', ''count'', ''number'', ''qty'', ''amount'', ''total'', ''sum'',
                       ''volume'', ''size'', ''length'', ''width'', ''height'']"

definition dateKeywords :: "string list" where
  "dateKeywords = [''date'', ''time'', ''created'', ''updated'', ''modified'', ''timestamp'',
                   ''year'', ''month'', ''day'']"

definition isPriceColumn :: "string \<Rightarrow> bool" where
  "isPriceColumn colName = list_ex (\<lambda>keyword. js_includes colName keyword) priceKeywords"

definition isQuantityColumn :: "string \<Rightarrow> bool" where
  "isQuantityColumn colName = list_ex (\<lambda>keyword. js_includes colName keyword) quantityKeywords"

definition isDateColumn :: "string \<Rightarrow> bool" where
  "isDateColumn colName = list_ex (\<lambda>keyword. js_includes colName keyword) dateKeywords"

definition isPriceOrQuantityColumn :: "cell list \<Rightarrow> bool" where
  "isPriceOrQuantityColumn values =
     (let numeric = filter (\<lambda>v. \<not> isNaN (js_Number v) \<and> v \<noteq> CNull \<and> v \<noteq> CUndef \<and> v \<noteq> CStr [])
                           values;
          positiveValues = filter (\<lambda>v. js_ge (js_Number v) (Fin 0)) numeric
      in js_gt (js_div (Fin (real (length positiveValues))) (Fin (real (length numeric))))
               (Fin 0.8))"

definition sentinels :: "string list" where
  "sentinels = [''n/a'', ''na'', ''unknown'', ''null'', ''none'', ''-'', ''--'', ''?'', ''missing'']"

text \<open>
  The callback of the \<open>map\<close> in \<open>fixErroneousValues\<close>, with the increment it makes to
  \<open>erroneousCount\<close>; \<open>values\<close> is the whole column as the function received it.
\<close>

definition fix_value :: "cell list \<Rightarrow> coltype \<Rightarrow> cell \<Rightarrow> cell \<times> nat" where
  "fix_value values columnType value =
     (if isMissing value then (value, 0)
      else (let stringValue = js_trim (js_toLowerCase (js_String value)) in
            if stringValue \<in> set sentinels then (CNull, 1)
            else if columnType = Numerical \<and> isPriceOrQuantityColumn values
            then (let numValue = js_Number value in
                  if \<not> isNaN numValue \<and> js_lt numValue (Fin 0)
                  then (CNum (js_abs numValue), 1) else (value, 0))
            else (value, 0)))"

definition fixErroneousValues :: "cell list \<Rightarrow> coltype \<Rightarrow> cell list \<times> nat" where
  "fixErroneousValues values columnType =
     (let fixed = map (fix_value values columnType) values
      in (map fst fixed, sum_list (map snd fixed)))"

text \<open>
  The characters that \<open>convertToFloat\<close> removes; the euro sign lies outside the 8-bit
  characters of the model.
\<close>

definition currencyChars :: "char list" where
  "currencyChars = [CHR '','', CHR ''$'', CHR 0xA3, CHR 0xA5]"

definition remove_chars :: "char list \<Rightarrow> string \<Rightarrow> string" where
  "remove_chars cs s = filter (\<lambda>c. c \<notin> set cs) s"

text \<open>The callbacks of the \<open>map\<close> in \<open>convertToFloat\<close> and in \<open>convertToInteger\<close>.\<close>

definition float_value :: "cell \<Rightarrow> cell" where
  "float_value value =
     (if isMissing value then value
      else (let stringValue = js_trim (remove_chars currencyChars (js_String value));
                numValue = js_parseFloat stringValue
            in if isNaN numValue then CNull else CNum numValue))"

definition convertToFloat :: "cell list \<Rightarrow> cell list \<times> coltype \<times> bool" where
  "convertToFloat values = (map float_value values, Numerical, True)"

definition integer_value :: "cell \<Rightarrow> cell" where
  "integer_value value =
     (if isMissing value then value
      else (let numValue = js_parseInt (remove_chars [CHR '',''] (js_String value))
            in if isNaN numValue then CNull else CNum numValue))"

definition convertToInteger :: "cell list \<Rightarrow> cell list \<times> coltype \<times> bool" where
  "convertToInteger values = (map integer_value values, Numerical, True)"

text \<open>
  The parsing of dates is left to the runtime: \<open>isoDate v\<close> is \<open>None\<close> when \<open>new Date(v)\<close>
  is an invalid date, and otherwise the date part of its \<open>toISOString()\<close>.
\<close>

definition date_value :: "(cell \<Rightarrow> string option) \<Rightarrow> cell \<Rightarrow> cell" where
  "date_value isoDate value =
     (if isMissing value then value
      else (case isoDate value of None \<Rightarrow> CNull | Some d \<Rightarrow> CStr d))"

definition convertToDate :: "(cell \<Rightarrow> string option) \<Rightarrow> cell list \<Rightarrow> cell list \<times> coltype \<times> bool" where
  "convertToDate isoDate values = (map (date_value isoDate) values, Date, True)"

definition convertTypes ::
  "(cell \<Rightarrow> string option) \<Rightarrow> cell list \<Rightarrow> DataColumn \<Rightarrow> cell list \<times> coltype \<times> bool" where
  "convertTypes isoDate values column =
     (let columnName = js_toLowerCase (name column) in
      if isPriceColumn columnName then convertToFloat values
      else if isQuantityColumn columnName then convertToInteger values
      else if isDateColumn columnName \<or> ctype column = Date then convertToDate isoDate values
      else (values, ctype column, False))"

text \<open>
  \<open>Array.from(frequency.entries()).reduce((a, b) => a[1] > b[1] ? a : b)[0]\<close>: the key of
  the entry that the reduction ends with.
\<close>

definition most_frequent :: "('k \<times> nat) list \<Rightarrow> js_error + 'k" where
  "most_frequent entries =
     (case js_reduce1 (\<lambda>a b. if snd a > snd b then a else b) entries of
        Inl e \<Rightarrow> Inl e
      | Inr a \<Rightarrow> Inr (fst a))"

definition imputationValue :: "cell list \<Rightarrow> coltype \<Rightarrow> js_error + (cell \<times> string)" where
  "imputationValue nonMissingValues columnType =
     (case columnType of
        Numerical \<Rightarrow>
          (let sortedValues = num_sort (map js_Number nonMissingValues);
               len = length sortedValues;
               median = (if len mod 2 = 0
                         then js_div (js_add (num_index sortedValues (int (len div 2) - 1))
                                             (num_index sortedValues (int (len div 2)))) (Fin 2)
                         else num_index sortedValues (int (len div 2)))
           in Inr (CNum median, ''median''))
      | Categorical \<Rightarrow>
          (case most_frequent (frequencies nonMissingValues) of
             Inl e \<Rightarrow> Inl e
           | Inr k \<Rightarrow> Inr (k, ''mode''))
      | Date \<Rightarrow>
          (case most_frequent (frequencies (map js_String nonMissingValues)) of
             Inl e \<Rightarrow> Inl e
           | Inr k \<Rightarrow> Inr (CStr k, ''most_frequent_date''))
      | Text \<Rightarrow>
          (case most_frequent (frequencies (map js_String nonMissingValues)) of
             Inl e \<Rightarrow> Inl e
           | Inr k \<Rightarrow> Inr (CStr k, ''most_frequent_text'')))"

definition imputeMissingValues :: "cell list \<Rightarrow> coltype \<Rightarrow> js_error + (cell list \<times> nat \<times> string)" where
  "imputeMissingValues values columnType =
     (let nonMissingValues = filter (\<lambda>v. \<not> isMissing v) values in
      if length nonMissingValues = 0 then Inr (values, 0, ''no_imputation_possible'')
      else (case imputationValue nonMissingValues columnType of
              Inl e \<Rightarrow> Inl e
            | Inr (imputation, method) \<Rightarrow>
                Inr (map (\<lambda>value. if isMissing value then imputation else value) values,
                     length (filter isMissing values), method)))"

definition cleanColumn ::
  "(cell \<Rightarrow> string option) \<Rightarrow> DataColumn \<Rightarrow> nat \<Rightarrow> js_error + (DataColumn \<times> ColumnCleaningReport)" where
  "cleanColumn isoDate column nRows =
     (let (fixedValues, erroneousCount) = fixErroneousValues (vals column) (ctype column);
          (convertedValues, newType, converted) = convertTypes isoDate fixedValues column;
          final = (if converted then newType else ctype column)
      in case imputeMissingValues convertedValues final of
           Inl e \<Rightarrow> Inl e
         | Inr (imputedValues, imputedCount, method) \<Rightarrow>
             (let newMissingCount = length (filter isMissing imputedValues);
                  newMissingRate = js_div (Fin (real newMissingCount)) (Fin (real nRows))
              in Inr (column\<lparr>ctype := final, vals := imputedValues,
                             missingCount := newMissingCount, missingRate := newMissingRate\<rparr>,
                      \<lparr>columnName = name column, originalType = ctype column, finalType = final,
                       missingValuesImputed = imputedCount, erroneousValuesFixed = erroneousCount,
                       typeConverted = converted, imputationMethod = Some method\<rparr>)))"

text \<open>A \<open>Set\<close> of row indices: its elements in insertion order, without repetition.\<close>

definition set_add :: "nat \<Rightarrow> nat list \<Rightarrow> nat list" where
  "set_add i rows = (if i \<in> set rows then rows else rows @ [i])"

text \<open>
  The marking of the modified rows of one column: the state is the set \<open>rowsModified\<close> and
  the values of the flag column.
\<close>

definition mark_row :: "cell list \<Rightarrow> cell list \<Rightarrow> nat list \<times> cell list \<Rightarrow> nat \<Rightarrow> nat list \<times> cell list" where
  "mark_row cleaned original st index =
     (if \<not> strict_eq (js_index cleaned index) (js_index original index)
      then (set_add index (fst st), js_set (snd st) index (CBool True))
      else st)"

definition mark_rows :: "cell list \<Rightarrow> cell list \<Rightarrow> nat list \<times> cell list \<Rightarrow> nat list \<times> cell list" where
  "mark_rows cleaned original st = foldl (mark_row cleaned original) st [0..<length cleaned]"

fun clean_columns ::
  "(cell \<Rightarrow> string option) \<Rightarrow> nat \<Rightarrow> DataColumn list
     \<Rightarrow> DataColumn list \<times> ColumnCleaningReport list \<times> nat list \<times> cell list
     \<Rightarrow> js_error + (DataColumn list \<times> ColumnCleaningReport list \<times> nat list \<times> cell list)" where
  "clean_columns isoDate n [] acc = Inr acc"
| "clean_columns isoDate n (column # rest) (cleanedColumns, reports, rowsModified, flags) =
     (case cleanColumn isoDate column n of
        Inl e \<Rightarrow> Inl e
      | Inr (cleanedColumn, report) \<Rightarrow>
          (let (rows', flags') = mark_rows (vals cleanedColumn) (vals column) (rowsModified, flags)
           in clean_columns isoDate n rest
                (cleanedColumns @ [cleanedColumn], reports @ [report], rows', flags')))"

definition cleanData ::
  "(cell \<Rightarrow> string option) \<Rightarrow> DataSummary \<Rightarrow> js_error + (DataSummary \<times> CleaningReport)" where
  "cleanData isoDate data =
     (case clean_columns isoDate (totalRows data) (columns data)
             ([], [], [], replicate (totalRows data) (CBool False)) of
        Inl e \<Rightarrow> Inl e
      | Inr (cleanedColumns, reports, rowsModified, flags) \<Rightarrow>
          (let cleaningFlagColumn = \<lparr>name = ''nettoyage_effectue'', ctype = Categorical, vals = flags,
                                     missingCount = 0, missingRate = Fin 0\<rparr>;
               cleanedData = data\<lparr>totalColumns := totalColumns data + 1,
                                  columns := cleanedColumns @ [cleaningFlagColumn]\<rparr>;
               report = \<lparr>totalRowsCleaned = length rowsModified,
                         columnReports = reports,
                         summary_missingValuesImputed = sum_list (map missingValuesImputed reports),
                         summary_erroneousValuesFixed = sum_list (map erroneousValuesFixed reports),
                         summary_typesConverted = length (filter typeConverted reports)\<rparr>
           in Inr (cleanedData, report)))"

section \<open>Example tables\<close>

definition example_table :: DataSummary where
  "example_table =
     \<lparr>totalRows = 2, totalColumns = 1,
      columns = [\<lparr>name = ''city'', ctype = Text, vals = [CStr ''Paris'', CStr ''n/a''],
                  missingCount = 0, missingRate = Fin 0\<rparr>],
      fileName = ''cities.csv''\<rparr>"

definition nan_table :: DataSummary where
  "nan_table =
     \<lparr>totalRows = 1, totalColumns = 1,
      columns = [\<lparr>name = ''x'', ctype = Text, vals = [CNum NaN],
                  missingCount = 0, missingRate = Fin 0\<rparr>],
      fileName = ''t''\<rparr>"

definition proto_table :: DataSummary where
  "proto_table =
     \<lparr>totalRows = 3, totalColumns = 2,
      columns = [\<lparr>name = ''__proto__'', ctype = Numerical, vals = [CStr ''1'', CStr ''2'', CStr ''3''],
                  missingCount = 0, missingRate = Fin 0\<rparr>,
                 \<lparr>name = ''y'', ctype = Numerical, vals = [CStr ''2'', CStr ''4'', CStr ''6''],
                  missingCount = 0, missingRate = Fin 0\<rparr>],
      fileName = ''proto.csv''\<rparr>"

definition infinity_table :: DataSummary where
  "infinity_table =
     \<lparr>totalRows = 3, totalColumns = 2,
      columns = [\<lparr>name = ''id'', ctype = Numerical, vals = [CStr ''1'', CStr ''2'', CStr ''3''],
                  missingCount = 0, missingRate = Fin 0\<rparr>,
                 \<lparr>name = ''price'', ctype = Numerical,
                  vals = [CStr ''Infinity'', CStr ''-Infinity'', CStr []],
                  missingCount = 1, missingRate = Fin (1 / 3)\<rparr>],
      fileName = ''prices.csv''\<rparr>"
section \<open>The missing-value predicates of the components\<close>


lemma nullish_examples:
  "isMissing (CStr [])" "isMissing (CStr ''  '')" "isMissing CNull" "isMissing CUndef"
  "\<not> isMissing (CStr ''0'')" "\<not> isMissing (CNum (Fin 0))"
  by code_simp+
















section \<open>Correlation and missing cells\<close>

lemma empty_cell_pairs:
  "pearson_pairs [CStr [], CStr ''1''] [CStr ''1'', CStr ''2''] = [(Fin 0, Fin 1), (Fin 1, Fin 2)]"
  by code_simp

text \<open>
  C4: the correlation is meant to run over the rows where both values are present. On
  \<open>x = ["", "1"]\<close>, \<open>y = ["1", "2"]\<close> only the second row is complete, so the claim gives the
  coefficient 0 (fewer than 2 usable pairs). The code keeps both rows, the empty cell
  entering as the number 0, and returns 1.
\<close>

theorem C4_empty_cell_enters_as_zero:
  "isMissing (CStr [])
   \<and> pearson_pairs [CStr [], CStr ''1''] [CStr ''1'', CStr ''2''] = [(Fin 0, Fin 1), (Fin 1, Fin 2)]
   \<and> calculatePearsonCorrelation [CStr [], CStr ''1''] [CStr ''1'', CStr ''2''] = Fin 1"
  unfolding calculatePearsonCorrelation_def empty_cell_pairs
  by (simp add: nullish_examples pearson_numerator_def pearson_denominator_def round_half_away_def fixed_value_def)

theorem C4_empty_cell_enters_as_zero_witness:
  "calculatePearsonCorrelation [CStr [], CStr ''1''] [CStr ''1'', CStr ''2''] \<noteq> Fin 0"
  using C4_empty_cell_enters_as_zero by simp

section \<open>The price scenario\<close>

lemma price_heuristic:
  "isPriceOrQuantityColumn [CStr ''10'', CStr ''-5'', CStr ''n/a'', CStr ''20''] = False"
  by code_simp

lemma price_fixed:
  "fixErroneousValues [CStr ''10'', CStr ''-5'', CStr ''n/a'', CStr ''20''] ty
     = ([CStr ''10'', CStr ''-5'', CNull, CStr ''20''], 1)"
proof -
  have a: "\<not> isMissing (CStr ''10'')" "\<not> isMissing (CStr ''-5'')"
    "\<not> isMissing (CStr ''n/a'')" "\<not> isMissing (CStr ''20'')"
    by code_simp+
  have b: "js_trim (js_toLowerCase ''10'') \<notin> set sentinels"
    "js_trim (js_toLowerCase ''-5'') \<notin> set sentinels"
    "js_trim (js_toLowerCase ''n/a'') \<in> set sentinels"
    "js_trim (js_toLowerCase ''20'') \<notin> set sentinels"
    by code_simp+
  show ?thesis
    by (simp add: fixErroneousValues_def fix_value_def a b price_heuristic)
qed

lemma price_converted:
  "convertTypes isoDate [CStr ''10'', CStr ''-5'', CNull, CStr ''20'']
      \<lparr>name = ''price'', ctype = ty, vals = vs, missingCount = mc, missingRate = mr\<rparr>
     = ([CNum (Fin 10), CNum (Fin (- 5)), CNull, CNum (Fin 20)], Numerical, True)"
proof -
  have a: "isPriceColumn (js_toLowerCase ''price'')"
    by code_simp
  have b: "convertToFloat [CStr ''10'', CStr ''-5'', CNull, CStr ''20'']
             = ([CNum (Fin 10), CNum (Fin (- 5)), CNull, CNum (Fin 20)], Numerical, True)"
    by code_simp
  show ?thesis
    by (simp add: convertTypes_def a b)
qed

lemma price_imputed:
  "imputeMissingValues [CNum (Fin 10), CNum (Fin (- 5)), CNull, CNum (Fin 20)] Numerical
     = Inr ([CNum (Fin 10), CNum (Fin (- 5)), CNum (Fin 10), CNum (Fin 20)], 1, ''median'')"
  by code_simp

text \<open>
  C10, as the claim states it, fails: the cleaned values are not \<open>[10, 5, 10, 20]\<close>. Even
  for a column typed numerical the second value stays \<open>-5\<close>: only 2 of the 3 values that
  read as numbers are at least 0, and 2/3 is not above 0.8, so the normalizer flips
  nothing.
\<close>

theorem C10_price_counterexample:
  "\<exists>c r. cleanColumn (\<lambda>v. None)
             \<lparr>name = ''price'', ctype = Numerical,
              vals = [CStr ''10'', CStr ''-5'', CStr ''n/a'', CStr ''20''],
              missingCount = 1, missingRate = Fin (1 / 4)\<rparr> 4 = Inr (c, r)
         \<and> vals c \<noteq> [CNum (Fin 10), CNum (Fin 5), CNum (Fin 10), CNum (Fin 20)]
         \<and> js_index (vals c) 1 = CNum (Fin (- 5))"
proof -
  have "cleanColumn (\<lambda>v. None)
          \<lparr>name = ''price'', ctype = Numerical,
           vals = [CStr ''10'', CStr ''-5'', CStr ''n/a'', CStr ''20''],
           missingCount = 1, missingRate = Fin (1 / 4)\<rparr> 4
        = Inr (\<lparr>name = ''price'', ctype = Numerical,
                vals = [CNum (Fin 10), CNum (Fin (- 5)), CNum (Fin 10), CNum (Fin 20)],
                missingCount = 0, missingRate = Fin 0\<rparr>,
               \<lparr>columnName = ''price'', originalType = Numerical, finalType = Numerical,
                missingValuesImputed = 1, erroneousValuesFixed = 1, typeConverted = True,
                imputationMethod = Some ''median''\<rparr>)"
    by (simp add: cleanColumn_def price_fixed price_converted price_imputed isMissing_def)
  then show ?thesis
    by (simp add: js_index_def)
qed

text \<open>
  C10, amended: whatever the recorded type of the column, cleaning the column \<open>price\<close>
  with the raw values \<open>["10", "-5", "n/a", "20"]\<close> turns \<open>"n/a"\<close> into a missing cell
  (one erroneous value fixed), converts the column to numbers, and imputes the missing cell
  with the median 10 of \<open>{-5, 10, 20}\<close>: the final values are \<open>[10, -5, 10, 20]\<close>, the final
  type is numerical, \<open>erroneousValuesFixed = 1\<close> and \<open>missingValuesImputed = 1\<close>.
\<close>

theorem C10_price_scenario:
  "cleanColumn isoDate
      \<lparr>name = ''price'', ctype = ty, vals = [CStr ''10'', CStr ''-5'', CStr ''n/a'', CStr ''20''],
       missingCount = mc, missingRate = mr\<rparr> n
     = Inr (\<lparr>name = ''price'', ctype = Numerical,
             vals = [CNum (Fin 10), CNum (Fin (- 5)), CNum (Fin 10), CNum (Fin 20)],
             missingCount = 0, missingRate = js_div (Fin 0) (Fin (real n))\<rparr>,
            \<lparr>columnName = ''price'', originalType = ty, finalType = Numerical,
             missingValuesImputed = 1, erroneousValuesFixed = 1, typeConverted = True,
             imputationMethod = Some ''median''\<rparr>)"
proof -
  have not_flipped: "fixErroneousValues [CStr ''10'', CStr ''-5'', CStr ''n/a'', CStr ''20''] ty
                 = ([CStr ''10'', CStr ''-5'', CNull, CStr ''20''], 1)"
    by (rule price_fixed)
  have imputed: "imputeMissingValues [CNum (Fin 10), CNum (Fin (- 5)), CNull, CNum (Fin 20)] Numerical
                 = Inr ([CNum (Fin 10), CNum (Fin (- 5)), CNum (Fin 10), CNum (Fin 20)], 1, ''median'')"
    by (rule price_imputed)
  show ?thesis
    by (simp add: cleanColumn_def not_flipped price_converted imputed isMissing_def)
qed

theorem C10_price_scenario_witness:
  "cleanColumn (\<lambda>v. None)
      \<lparr>name = ''price'', ctype = Text, vals = [CStr ''10'', CStr ''-5'', CStr ''n/a'', CStr ''20''],
       missingCount = 0, missingRate = Fin 0\<rparr> 4
     = Inr (\<lparr>name = ''price'', ctype = Numerical,
             vals = [CNum (Fin 10), CNum (Fin (- 5)), CNum (Fin 10), CNum (Fin 20)],
             missingCount = 0, missingRate = Fin 0\<rparr>,
            \<lparr>columnName = ''price'', originalType = Text, finalType = Numerical,
             missingValuesImputed = 1, erroneousValuesFixed = 1, typeConverted = True,
             imputationMethod = Some ''median''\<rparr>)"
  using C10_price_scenario [of "\<lambda>v. None" Text 0 "Fin 0" 4] by simp

section \<open>Frequency tables and the most frequent value\<close>

lemma frequencies_snoc: "frequencies (xs @ [x]) = map_inc x (frequencies xs)"
  by (simp add: frequencies_def)

lemma map_of_map_inc:
  "map_of (map_inc k m) = (map_of m)(k \<mapsto> (case map_of m k of None \<Rightarrow> 1 | Some n \<Rightarrow> n + 1))"
  by (induction m) (auto simp add: fun_eq_iff)

lemma keys_map_inc:
  "map fst (map_inc k m) = (if k \<in> fst ` set m then map fst m else map fst m @ [k])"
  by (induction m) (fastforce simp add: image_iff)+

lemma takeWhile_snoc_subset: "set (takeWhile P xs) \<subseteq> set (takeWhile P (xs @ ys))"
  by (induction xs) auto

lemma fst_in_image: "(a, b) \<in> S \<Longrightarrow> a \<in> fst ` S"
  by force

lemma keys_set_map_inc: "fst ` set (map_inc k m) = insert k (fst ` set m)"
  by (induction k m rule: map_inc.induct) (simp_all add: insert_commute)

lemma keys_frequencies_set: "fst ` set (frequencies xs) = set xs"
proof (induction xs rule: rev_induct)
  case Nil
  then show ?case by (simp add: frequencies_def)
next
  case (snoc x xs)
  then show ?case by (simp add: frequencies_snoc keys_set_map_inc)
qed

lemma keys_frequencies_snoc:
  "map fst (frequencies (xs @ [x])) =
     (if x \<in> set xs then map fst (frequencies xs) else map fst (frequencies xs) @ [x])"
  using keys_frequencies_set [of xs] by (simp add: frequencies_snoc keys_map_inc)

lemma keys_frequencies_distinct: "distinct (map fst (frequencies xs))"
proof (induction xs rule: rev_induct)
  case Nil
  then show ?case by (simp add: frequencies_def)
next
  case (snoc x xs)
  then show ?case using keys_frequencies_set [of xs] by (simp add: keys_frequencies_snoc)
qed

lemma map_of_frequencies:
  "map_of (frequencies xs) k = (if k \<in> set xs then Some (count_list xs k) else None)"
proof (induction xs rule: rev_induct)
  case Nil
  then show ?case by (simp add: frequencies_def)
next
  case (snoc x xs)
  then show ?case by (auto simp add: frequencies_snoc map_of_map_inc)
qed

lemma frequencies_entry:
  "(k, n) \<in> set (frequencies xs) \<longleftrightarrow> k \<in> set xs \<and> n = count_list xs k"
  using map_of_eq_Some_iff [OF keys_frequencies_distinct, of xs k n] map_of_frequencies [of xs k]
  by (auto split: if_splits)

lemma keys_before:
  "map fst (frequencies xs) = pre @ m # post \<Longrightarrow> set pre \<subseteq> set (takeWhile (\<lambda>v. v \<noteq> m) xs)"
proof (induction xs arbitrary: pre post rule: rev_induct)
  case Nil
  then show ?case by (simp add: frequencies_def)
next
  case (snoc x xs)
  show ?case
  proof (cases "x \<in> set xs")
    case True
    then have "map fst (frequencies xs) = pre @ m # post"
      using snoc.prems by (simp add: keys_frequencies_snoc)
    then have "set pre \<subseteq> set (takeWhile (\<lambda>v. v \<noteq> m) xs)" by (rule snoc.IH)
    then show ?thesis using takeWhile_snoc_subset [of "\<lambda>v. v \<noteq> m" xs "[x]"] by blast
  next
    case False
    then have eq: "map fst (frequencies xs) @ [x] = pre @ m # post"
      using snoc.prems by (simp add: keys_frequencies_snoc)
    show ?thesis
    proof (cases post rule: rev_cases)
      case Nil
      then have "m = x" "pre = map fst (frequencies xs)" using eq by auto
      then have "set pre = set xs" by (simp add: keys_frequencies_set)
      moreover have "takeWhile (\<lambda>v. v \<noteq> m) (xs @ [x]) = xs"
        using False \<open>m = x\<close> by (auto simp add: takeWhile_append)
      ultimately show ?thesis by simp
    next
      case (snoc post' y)
      then have "map fst (frequencies xs) = pre @ m # post'" using eq by auto
      then have "set pre \<subseteq> set (takeWhile (\<lambda>v. v \<noteq> m) xs)" by (rule snoc.IH)
      then show ?thesis using takeWhile_snoc_subset [of "\<lambda>v. v \<noteq> m" xs "[x]"] by blast
    qed
  qed
qed

lemma reduce_last_max:
  fixes e :: "'k \<times> nat"
  shows "\<exists>pre post. e # es = pre @ foldl (\<lambda>a b. if snd a > snd b then a else b) e es # post
       \<and> (\<forall>x \<in> set pre. snd x \<le> snd (foldl (\<lambda>a b. if snd a > snd b then a else b) e es))
       \<and> (\<forall>x \<in> set post. snd x < snd (foldl (\<lambda>a b. if snd a > snd b then a else b) e es))"
proof (induction es rule: rev_induct)
  case Nil
  show ?case
    by (rule exI [of _ "[]"], rule exI [of _ "[]"]) simp
next
  case (snoc x es)
  let ?pick = "\<lambda>a b :: 'k \<times> nat. if snd a > snd b then a else b"
  let ?r = "foldl ?pick e es"
  from snoc obtain pre post where d: "e # es = pre @ ?r # post"
    and le: "\<forall>y \<in> set pre. snd y \<le> snd ?r" and lt: "\<forall>y \<in> set post. snd y < snd ?r"
    by (elim exE conjE)
  have step: "foldl ?pick e (es @ [x]) = ?pick ?r x"
    by simp
  show ?case
  proof (cases "snd ?r > snd x")
    case True
    have r: "foldl ?pick e (es @ [x]) = ?r"
      using True step by simp
    have a: "e # (es @ [x]) = pre @ ?r # (post @ [x])"
      using arg_cong [OF d, of "\<lambda>l. l @ [x]"] by simp
    have b: "\<forall>y \<in> set (post @ [x]). snd y < snd ?r"
      using lt True by simp
    show ?thesis
      unfolding r by (rule exI [of _ pre], rule exI [of _ "post @ [x]"]) (intro conjI a le b)
  next
    case False
    have r: "foldl ?pick e (es @ [x]) = x"
      using False step by simp
    have all: "\<forall>y \<in> set (e # es). snd y \<le> snd ?r"
    proof
      fix y assume "y \<in> set (e # es)"
      then have "y \<in> set (pre @ ?r # post)"
        by (simp only: d)
      then have "y \<in> set pre \<or> y = ?r \<or> y \<in> set post"
        by auto
      then show "snd y \<le> snd ?r"
        using le lt by (auto simp add: less_imp_le)
    qed
    have a: "e # (es @ [x]) = (e # es) @ x # []"
      by simp
    have b: "\<forall>y \<in> set (e # es). snd y \<le> snd x"
    proof
      fix y assume "y \<in> set (e # es)"
      then have "snd y \<le> snd ?r" using all by blast
      then show "snd y \<le> snd x" using False by simp
    qed
    have c: "\<forall>y \<in> set []. snd y < snd x"
      by simp
    show ?thesis
      unfolding r by (rule exI [of _ "e # es"], rule exI [of _ "[]"]) (intro conjI a b c)
  qed
qed

lemma frequencies_nonempty: "xs \<noteq> [] \<Longrightarrow> frequencies xs \<noteq> []"
  using keys_frequencies_set [of xs] by auto

lemma most_frequent_spec:
  assumes "xs \<noteq> []"
  shows "\<exists>m. most_frequent (frequencies xs) = Inr m \<and> m \<in> set xs
           \<and> (\<forall>w. count_list xs w \<le> count_list xs m)
           \<and> (\<forall>w. w \<noteq> m \<and> count_list xs w = count_list xs m
                  \<longrightarrow> w \<in> set (takeWhile (\<lambda>v. v \<noteq> m) xs))"
proof -
  obtain e es where fr: "frequencies xs = e # es"
    using frequencies_nonempty [OF assms] by (cases "frequencies xs") auto
  define r where "r = foldl (\<lambda>a b :: 'a \<times> nat. if snd a > snd b then a else b) e es"
  obtain pre post where d: "e # es = pre @ r # post"
    and le: "\<forall>x \<in> set pre. snd x \<le> snd r" and lt: "\<forall>x \<in> set post. snd x < snd r"
    using reduce_last_max [of e es] unfolding r_def by (elim exE conjE)
  have mf: "most_frequent (frequencies xs) = Inr (fst r)"
    by (simp add: most_frequent_def fr r_def)
  have "(fst r, snd r) \<in> set (frequencies xs)"
    by (simp add: fr d)
  then have "fst r \<in> set xs \<and> snd r = count_list xs (fst r)"
    by (simp only: frequencies_entry)
  then have rin: "fst r \<in> set xs" and rcount: "snd r = count_list xs (fst r)"
    by simp_all
  have entry: "(w, count_list xs w) \<in> set pre \<or> (w, count_list xs w) = r
                 \<or> (w, count_list xs w) \<in> set post" if "w \<in> set xs" for w
  proof -
    have "(w, count_list xs w) \<in> set (frequencies xs)"
      using that by (simp add: frequencies_entry)
    then show ?thesis by (simp add: fr d) blast
  qed
  have max: "count_list xs w \<le> count_list xs (fst r)" for w
  proof (cases "w \<in> set xs")
    case True
    have "snd (w, count_list xs w) \<le> snd r"
      using entry [OF True] le lt by (auto simp add: less_imp_le)
    then show ?thesis using rcount by simp
  next
    case False
    then show ?thesis by (simp add: count_list_0_iff)
  qed
  have tie: "w \<in> set (takeWhile (\<lambda>v. v \<noteq> fst r) xs)"
    if "w \<noteq> fst r" "count_list xs w = count_list xs (fst r)" for w
  proof -
    have "count_list xs (fst r) \<noteq> 0"
      using rin by (simp add: count_list_0_iff)
    then have "count_list xs w \<noteq> 0"
      using that(2) by simp
    then have win: "w \<in> set xs"
      by (simp add: count_list_0_iff)
    have "(w, count_list xs w) \<noteq> r"
      using that(1) by auto
    moreover have "(w, count_list xs w) \<notin> set post"
    proof
      assume "(w, count_list xs w) \<in> set post"
      then have "snd (w, count_list xs w) < snd r" using lt by blast
      then show False using that(2) rcount by simp
    qed
    ultimately have "(w, count_list xs w) \<in> set pre"
      using entry [OF win] by blast
    then have wpre: "w \<in> set (map fst pre)"
      by force
    have "map fst (frequencies xs) = map fst pre @ fst r # map fst post"
      by (simp add: fr d)
    then have "set (map fst pre) \<subseteq> set (takeWhile (\<lambda>v. v \<noteq> fst r) xs)"
      by (rule keys_before)
    then show ?thesis
      using wpre by (rule subsetD)
  qed
  show ?thesis
    using mf rin max tie by blast
qed

text \<open>
  C9, as the claim states it, fails on the tie: in \<open>["a", "b", null]\<close> both values occur
  once, \<open>"a"\<close> is encountered first, and the missing cell is filled with \<open>"b"\<close>.
\<close>

theorem C9_tie_counterexample:
  "imputeMissingValues [CStr ''a'', CStr ''b'', CNull] Categorical
     = Inr ([CStr ''a'', CStr ''b'', CStr ''b''], 1, ''mode'')"
  by code_simp

text \<open>
  C9, amended: when a categorical column has a non-missing value, every missing cell is
  filled with one value \<open>m\<close>, the method is \<open>"mode"\<close>, and \<open>m\<close> is a most frequent one of
  the non-missing values. Among equally frequent values the one first encountered last
  wins: every other value as frequent as \<open>m\<close> occurs before the first occurrence of \<open>m\<close>.
\<close>

theorem C9_mode_last_among_ties:
  assumes "filter (\<lambda>v. \<not> isMissing v) values \<noteq> []"
  shows "\<exists>m. imputeMissingValues values Categorical
               = Inr (map (\<lambda>v. if isMissing v then m else v) values,
                      length (filter isMissing values), ''mode'')
           \<and> m \<in> set values \<and> \<not> isMissing m
           \<and> (\<forall>w. count_list (filter (\<lambda>v. \<not> isMissing v) values) w
                    \<le> count_list (filter (\<lambda>v. \<not> isMissing v) values) m)
           \<and> (\<forall>w. w \<noteq> m \<and> count_list (filter (\<lambda>v. \<not> isMissing v) values) w
                              = count_list (filter (\<lambda>v. \<not> isMissing v) values) m
                  \<longrightarrow> w \<in> set (takeWhile (\<lambda>v. v \<noteq> m) (filter (\<lambda>v. \<not> isMissing v) values)))"
proof -
  let ?nm = "filter (\<lambda>v. \<not> isMissing v) values"
  obtain m where mf: "most_frequent (frequencies ?nm) = Inr m" and min: "m \<in> set ?nm"
    and mx: "\<forall>w. count_list ?nm w \<le> count_list ?nm m"
    and tie: "\<forall>w. w \<noteq> m \<and> count_list ?nm w = count_list ?nm m
                  \<longrightarrow> w \<in> set (takeWhile (\<lambda>v. v \<noteq> m) ?nm)"
    using most_frequent_spec [OF assms] by (elim exE conjE)
  have "imputeMissingValues values Categorical
          = Inr (map (\<lambda>v. if isMissing v then m else v) values,
                 length (filter isMissing values), ''mode'')"
    using assms by (simp add: imputeMissingValues_def imputationValue_def mf)
  then show ?thesis
    using min mx tie by auto
qed

theorem C9_mode_last_among_ties_witness:
  "filter (\<lambda>v. \<not> isMissing v) [CStr ''a'', CStr ''b'', CStr ''a'', CNull] \<noteq> []
   \<and> (\<exists>m. imputeMissingValues [CStr ''a'', CStr ''b'', CStr ''a'', CNull] Categorical
             = Inr (map (\<lambda>v. if isMissing v then m else v) [CStr ''a'', CStr ''b'', CStr ''a'', CNull],
                    length (filter isMissing [CStr ''a'', CStr ''b'', CStr ''a'', CNull]), ''mode'')
           \<and> \<not> isMissing m)"
proof -
  have h: "filter (\<lambda>v. \<not> isMissing v) [CStr ''a'', CStr ''b'', CStr ''a'', CNull] \<noteq> []"
    by code_simp
  show ?thesis
    using h C9_mode_last_among_ties [OF h] by blast
qed

section \<open>The cleaner always returns\<close>

lemma fixErroneousValues_length: "length (fst (fixErroneousValues values ty)) = length values"
  by (simp add: fixErroneousValues_def)

lemma convertTypes_length: "length (fst (convertTypes isoDate values column)) = length values"
  by (simp add: convertTypes_def convertToFloat_def convertToInteger_def convertToDate_def Let_def)

lemma imputationValue_total:
  assumes "nm \<noteq> []"
  shows "\<exists>v mth. imputationValue nm ty = Inr (v, mth)"
proof (cases ty)
  case Numerical
  then show ?thesis by (simp add: imputationValue_def Let_def)
next
  case Categorical
  obtain m where "most_frequent (frequencies nm) = Inr m"
    using most_frequent_spec [OF assms] by (elim exE conjE)
  then show ?thesis using Categorical by (simp add: imputationValue_def)
next
  case Date
  have ne: "map js_String nm \<noteq> []" using assms by simp
  obtain m where "most_frequent (frequencies (map js_String nm)) = Inr m"
    using most_frequent_spec [OF ne] by (elim exE conjE)
  then show ?thesis using Date by (simp add: imputationValue_def)
next
  case Text
  have ne: "map js_String nm \<noteq> []" using assms by simp
  obtain m where "most_frequent (frequencies (map js_String nm)) = Inr m"
    using most_frequent_spec [OF ne] by (elim exE conjE)
  then show ?thesis using Text by (simp add: imputationValue_def)
qed

lemma imputeMissingValues_total:
  "\<exists>vs k mth. imputeMissingValues values ty = Inr (vs, k, mth) \<and> length vs = length values"
proof (cases "filter (\<lambda>v. \<not> isMissing v) values = []")
  case True
  then show ?thesis by (simp add: imputeMissingValues_def)
next
  case False
  obtain v mth where "imputationValue (filter (\<lambda>v. \<not> isMissing v) values) ty = Inr (v, mth)"
    using imputationValue_total [OF False, of ty] by (elim exE)
  then show ?thesis using False by (simp add: imputeMissingValues_def)
qed

lemma cleanColumn_total:
  "\<exists>c r. cleanColumn isoDate col n = Inr (c, r) \<and> length (vals c) = length (vals col)
         \<and> name c = name col"
proof -
  obtain fv ec where f: "fixErroneousValues (vals col) (ctype col) = (fv, ec)"
    by (cases "fixErroneousValues (vals col) (ctype col)")
  obtain cv nt cd where c: "convertTypes isoDate fv col = (cv, nt, cd)"
    by (cases "convertTypes isoDate fv col")
  have l1: "length fv = length (vals col)"
    using fixErroneousValues_length [of "vals col" "ctype col"] f by simp
  have l2: "length cv = length fv"
    using convertTypes_length [of isoDate fv col] c by simp
  obtain vs k mth where i: "imputeMissingValues cv (if cd then nt else ctype col) = Inr (vs, k, mth)"
    and l3: "length vs = length cv"
    using imputeMissingValues_total [of cv "if cd then nt else ctype col"] by (elim exE conjE)
  show ?thesis
    using l1 l2 l3 by (simp add: cleanColumn_def f c i Let_def)
qed

lemma cleanColumn_Inr: "cleanColumn isoDate col n = Inr (projr (cleanColumn isoDate col n))"
  using cleanColumn_total [of isoDate col n] by auto

lemma clean_columns_eq:
  "clean_columns isoDate n cols (ac, ar, st)
     = Inr (ac @ map (\<lambda>col. fst (projr (cleanColumn isoDate col n))) cols,
            ar @ map (\<lambda>col. snd (projr (cleanColumn isoDate col n))) cols,
            foldl (\<lambda>st col. mark_rows (vals (fst (projr (cleanColumn isoDate col n)))) (vals col) st)
                  st cols)"
proof (induction cols arbitrary: ac ar st)
  case Nil
  then show ?case by simp
next
  case (Cons col cols)
  obtain rows flags where st: "st = (rows, flags)" by (cases st)
  obtain c r where cr: "projr (cleanColumn isoDate col n) = (c, r)"
    by (cases "projr (cleanColumn isoDate col n)")
  have e: "cleanColumn isoDate col n = Inr (c, r)"
    using cleanColumn_Inr [of isoDate col n] cr by simp
  obtain rows' flags' where m: "mark_rows (vals c) (vals col) (rows, flags) = (rows', flags')"
    by (cases "mark_rows (vals c) (vals col) (rows, flags)")
  show ?case
    using Cons.IH [of "ac @ [c]" "ar @ [r]" "(rows', flags')"]
    by (simp add: st e m cr)
qed

section \<open>The marking of modified rows\<close>

lemma js_index_js_set: "js_index (js_set xs i v) j = (if j = i then v else js_index xs j)"
  by (auto simp add: js_index_def js_set_def nth_append)

lemma length_js_set: "length (js_set xs i v) = (if i < length xs then length xs else Suc i)"
  by (simp add: js_set_def)

lemma mark_row_step:
  "mark_row c orig (rows, flags) i =
     (if \<not> strict_eq (js_index c i) (js_index orig i)
      then (set_add i rows, js_set flags i (CBool True)) else (rows, flags))"
  by (simp add: mark_row_def)

lemma set_add_props: "set (set_add i rows) = insert i (set rows)"
  "distinct rows \<Longrightarrow> distinct (set_add i rows)"
  by (auto simp add: set_add_def)

lemma mark_indices:
  assumes "distinct rows" and "\<forall>j. js_index flags j = CBool True \<longleftrightarrow> j \<in> set rows"
  shows "\<exists>rows' flags'. foldl (mark_row c orig) (rows, flags) idx = (rows', flags')
           \<and> distinct rows'
           \<and> set rows' = set rows \<union> {i \<in> set idx. \<not> strict_eq (js_index c i) (js_index orig i)}
           \<and> (\<forall>j. js_index flags' j = CBool True \<longleftrightarrow> j \<in> set rows')
           \<and> (\<forall>j. (\<exists>b. js_index flags j = CBool b) \<longrightarrow> (\<exists>b. js_index flags' j = CBool b))
           \<and> ((\<forall>i \<in> set idx. i < length flags) \<longrightarrow> length flags' = length flags)"
  using assms
proof (induction idx arbitrary: rows flags)
  case Nil
  then show ?case by simp
next
  case (Cons i idx)
  show ?case
  proof (cases "strict_eq (js_index c i) (js_index orig i)")
    case True
    obtain rows' flags' where
      "foldl (mark_row c orig) (rows, flags) idx = (rows', flags')" "distinct rows'"
      "set rows' = set rows \<union> {i \<in> set idx. \<not> strict_eq (js_index c i) (js_index orig i)}"
      "\<forall>j. js_index flags' j = CBool True \<longleftrightarrow> j \<in> set rows'"
      "\<forall>j. (\<exists>b. js_index flags j = CBool b) \<longrightarrow> (\<exists>b. js_index flags' j = CBool b)"
      "(\<forall>i \<in> set idx. i < length flags) \<longrightarrow> length flags' = length flags"
      using Cons.IH [OF Cons.prems] by (elim exE conjE)
    then show ?thesis
      using True by (intro exI [of _ rows'] exI [of _ flags']) (auto simp add: mark_row_step)
  next
    case False
    let ?rows = "set_add i rows" and ?flags = "js_set flags i (CBool True)"
    have d: "distinct ?rows" using Cons.prems(1) by (rule set_add_props)
    have f: "\<forall>j. js_index ?flags j = CBool True \<longleftrightarrow> j \<in> set ?rows"
      using Cons.prems(2) by (simp add: js_index_js_set set_add_props)
    obtain rows' flags' where
      r: "foldl (mark_row c orig) (?rows, ?flags) idx = (rows', flags')" "distinct rows'"
      "set rows' = set ?rows \<union> {i \<in> set idx. \<not> strict_eq (js_index c i) (js_index orig i)}"
      "\<forall>j. js_index flags' j = CBool True \<longleftrightarrow> j \<in> set rows'"
      and b: "\<forall>j. (\<exists>b. js_index ?flags j = CBool b) \<longrightarrow> (\<exists>b. js_index flags' j = CBool b)"
      and l: "(\<forall>i \<in> set idx. i < length ?flags) \<longrightarrow> length flags' = length ?flags"
      using Cons.IH [OF d f] by (elim exE conjE)
    have b': "\<forall>j. (\<exists>b. js_index flags j = CBool b) \<longrightarrow> (\<exists>b. js_index flags' j = CBool b)"
    proof (intro allI impI)
      fix j assume "\<exists>b. js_index flags j = CBool b"
      then have "\<exists>b. js_index ?flags j = CBool b"
        by (auto simp add: js_index_js_set)
      then show "\<exists>b. js_index flags' j = CBool b"
        using b by blast
    qed
    have l': "(\<forall>i \<in> set (i # idx). i < length flags) \<longrightarrow> length flags' = length flags"
      using l by (simp add: length_js_set)
    have s: "set rows' = set rows \<union> {k \<in> set (i # idx). \<not> strict_eq (js_index c k) (js_index orig k)}"
      using r(3) False by (auto simp add: set_add_props)
    have fo: "foldl (mark_row c orig) (rows, flags) (i # idx) = (rows', flags')"
      using r(1) False by (simp add: mark_row_step)
    show ?thesis
      by (intro exI [of _ rows'] exI [of _ flags'] conjI fo r(2) s r(4) b' l')
  qed
qed

lemma mark_columns:
  assumes "distinct rows" and "\<forall>j. js_index flags j = CBool True \<longleftrightarrow> j \<in> set rows"
  shows "\<exists>rows' flags'. foldl (\<lambda>st col. mark_rows (f col) (vals col) st) (rows, flags) cols = (rows', flags')
           \<and> distinct rows'
           \<and> set rows' = set rows \<union> {i. \<exists>col \<in> set cols. i < length (f col)
                                          \<and> \<not> strict_eq (js_index (f col) i) (js_index (vals col) i)}
           \<and> (\<forall>j. js_index flags' j = CBool True \<longleftrightarrow> j \<in> set rows')
           \<and> (\<forall>j. (\<exists>b. js_index flags j = CBool b) \<longrightarrow> (\<exists>b. js_index flags' j = CBool b))
           \<and> ((\<forall>col \<in> set cols. length (f col) \<le> length flags) \<longrightarrow> length flags' = length flags)"
  using assms
proof (induction cols arbitrary: rows flags)
  case Nil
  then show ?case by simp
next
  case (Cons col cols)
  obtain r1 f1 where
    m: "foldl (mark_row (f col) (vals col)) (rows, flags) [0..<length (f col)] = (r1, f1)"
    and d1: "distinct r1"
    and s1: "set r1 = set rows \<union> {i \<in> set [0..<length (f col)].
                                     \<not> strict_eq (js_index (f col) i) (js_index (vals col) i)}"
    and t1: "\<forall>j. js_index f1 j = CBool True \<longleftrightarrow> j \<in> set r1"
    and b1: "\<forall>j. (\<exists>b. js_index flags j = CBool b) \<longrightarrow> (\<exists>b. js_index f1 j = CBool b)"
    and l1: "(\<forall>i \<in> set [0..<length (f col)]. i < length flags) \<longrightarrow> length f1 = length flags"
    using mark_indices [OF Cons.prems, of "f col" "vals col" "[0..<length (f col)]"]
    by (elim exE conjE)
  obtain rows' flags' where
    fo: "foldl (\<lambda>st col. mark_rows (f col) (vals col) st) (r1, f1) cols = (rows', flags')"
    and d2: "distinct rows'"
    and s2: "set rows' = set r1 \<union> {i. \<exists>col \<in> set cols. i < length (f col)
                                      \<and> \<not> strict_eq (js_index (f col) i) (js_index (vals col) i)}"
    and t2: "\<forall>j. js_index flags' j = CBool True \<longleftrightarrow> j \<in> set rows'"
    and b2: "\<forall>j. (\<exists>b. js_index f1 j = CBool b) \<longrightarrow> (\<exists>b. js_index flags' j = CBool b)"
    and l2: "(\<forall>col \<in> set cols. length (f col) \<le> length f1) \<longrightarrow> length flags' = length f1"
    using Cons.IH [OF d1 t1] by (elim exE conjE)
  have fo': "foldl (\<lambda>st col. mark_rows (f col) (vals col) st) (rows, flags) (col # cols) = (rows', flags')"
    using fo m by (simp add: mark_rows_def)
  have s: "set rows' = set rows \<union> {i. \<exists>col \<in> set (col # cols). i < length (f col)
                                      \<and> \<not> strict_eq (js_index (f col) i) (js_index (vals col) i)}"
    using s1 s2 by auto
  have b: "\<forall>j. (\<exists>b. js_index flags j = CBool b) \<longrightarrow> (\<exists>b. js_index flags' j = CBool b)"
    using b1 b2 by blast
  have l: "(\<forall>col \<in> set (col # cols). length (f col) \<le> length flags) \<longrightarrow> length flags' = length flags"
    using l1 l2 by auto
  show ?case
    by (intro exI [of _ rows'] exI [of _ flags'] conjI fo' d2 s t2 b l)
qed

lemma count_true_flags:
  assumes "distinct rows" and "\<forall>j. js_index flags j = CBool True \<longleftrightarrow> j \<in> set rows"
  shows "length (filter (\<lambda>v. v = CBool True) flags) = length rows"
proof -
  have "{i. i < length flags \<and> flags ! i = CBool True} = set rows"
    using assms(2) by (auto simp add: js_index_def split: if_splits)
  then have "length (filter (\<lambda>v. v = CBool True) flags) = card (set rows)"
    by (simp add: length_filter_conv_card)
  then show ?thesis
    using assms(1) by (simp add: distinct_card)
qed

section \<open>The result of cleaning a table\<close>

lemma cleaned_length:
  "length (vals (fst (projr (cleanColumn isoDate col n)))) = length (vals col)"
  using cleanColumn_total [of isoDate col n] by auto

lemma cleaned_name:
  "name (fst (projr (cleanColumn isoDate col n))) = name col"
  using cleanColumn_total [of isoDate col n] by auto

lemma strict_eq_out_of_range:
  "length c = length orig \<Longrightarrow> \<not> i < length c \<Longrightarrow> strict_eq (js_index c i) (js_index orig i)"
  by (simp add: strict_eq_def js_index_def)

lemma cleanData_spec:
  "\<exists>rows flags.
     cleanData isoDate t
       = Inr (t\<lparr>totalColumns := totalColumns t + 1,
                columns := map (\<lambda>col. fst (projr (cleanColumn isoDate col (totalRows t)))) (columns t)
                           @ [\<lparr>name = ''nettoyage_effectue'', ctype = Categorical, vals = flags,
                               missingCount = 0, missingRate = Fin 0\<rparr>]\<rparr>,
              \<lparr>totalRowsCleaned = length rows,
               columnReports = map (\<lambda>col. snd (projr (cleanColumn isoDate col (totalRows t)))) (columns t),
               summary_missingValuesImputed =
                 sum_list (map missingValuesImputed
                    (map (\<lambda>col. snd (projr (cleanColumn isoDate col (totalRows t)))) (columns t))),
               summary_erroneousValuesFixed =
                 sum_list (map erroneousValuesFixed
                    (map (\<lambda>col. snd (projr (cleanColumn isoDate col (totalRows t)))) (columns t))),
               summary_typesConverted =
                 length (filter typeConverted
                    (map (\<lambda>col. snd (projr (cleanColumn isoDate col (totalRows t)))) (columns t)))\<rparr>)
     \<and> distinct rows
     \<and> set rows = {i. \<exists>col \<in> set (columns t).
                        \<not> strict_eq (js_index (vals (fst (projr (cleanColumn isoDate col (totalRows t))))) i)
                                     (js_index (vals col) i)}
     \<and> (\<forall>j. js_index flags j = CBool True \<longleftrightarrow> j \<in> set rows)
     \<and> (\<forall>j < totalRows t. \<exists>b. js_index flags j = CBool b)
     \<and> ((\<forall>col \<in> set (columns t). length (vals col) \<le> totalRows t) \<longrightarrow> length flags = totalRows t)"
proof -
  let ?n = "totalRows t"
  let ?f = "\<lambda>col. vals (fst (projr (cleanColumn isoDate col ?n)))"
  let ?init = "replicate ?n (CBool False)"
  have i1: "distinct ([] :: nat list)" by simp
  have i2: "\<forall>j. js_index ?init j = CBool True \<longleftrightarrow> j \<in> set ([] :: nat list)"
    by (simp add: js_index_def)
  obtain rows flags where
    fo: "foldl (\<lambda>st col. mark_rows (?f col) (vals col) st) ([], ?init) (columns t) = (rows, flags)"
    and d: "distinct rows"
    and s: "set rows = set [] \<union> {i. \<exists>col \<in> set (columns t). i < length (?f col)
                                     \<and> \<not> strict_eq (js_index (?f col) i) (js_index (vals col) i)}"
    and tr: "\<forall>j. js_index flags j = CBool True \<longleftrightarrow> j \<in> set rows"
    and b: "\<forall>j. (\<exists>b. js_index ?init j = CBool b) \<longrightarrow> (\<exists>b. js_index flags j = CBool b)"
    and l: "(\<forall>col \<in> set (columns t). length (?f col) \<le> length ?init) \<longrightarrow> length flags = length ?init"
    using mark_columns [OF i1 i2, of ?f "columns t"] by (elim exE conjE)
  have s': "set rows = {i. \<exists>col \<in> set (columns t). \<not> strict_eq (js_index (?f col) i) (js_index (vals col) i)}"
  proof -
    have "(i < length (?f col) \<and> \<not> strict_eq (js_index (?f col) i) (js_index (vals col) i))
            \<longleftrightarrow> \<not> strict_eq (js_index (?f col) i) (js_index (vals col) i)" for i col
      using strict_eq_out_of_range [OF cleaned_length, of i isoDate col ?n] by blast
    then show ?thesis using s by simp
  qed
  have b': "\<forall>j < ?n. \<exists>b. js_index flags j = CBool b"
  proof (intro allI impI)
    fix j assume "j < ?n"
    then have "js_index ?init j = CBool False"
      by (simp add: js_index_def)
    then have "\<exists>b. js_index ?init j = CBool b"
      by (rule exI)
    then show "\<exists>b. js_index flags j = CBool b"
      using b by blast
  qed
  have l': "(\<forall>col \<in> set (columns t). length (vals col) \<le> ?n) \<longrightarrow> length flags = ?n"
    using l by (simp add: cleaned_length)
  have e: "clean_columns isoDate ?n (columns t) ([], [], [], ?init)
             = Inr (map (\<lambda>col. fst (projr (cleanColumn isoDate col ?n))) (columns t),
                    map (\<lambda>col. snd (projr (cleanColumn isoDate col ?n))) (columns t), rows, flags)"
    using clean_columns_eq [of isoDate ?n "columns t" "[]" "[]" "([], ?init)"] fo by simp
  have c: "cleanData isoDate t
       = Inr (t\<lparr>totalColumns := totalColumns t + 1,
                columns := map (\<lambda>col. fst (projr (cleanColumn isoDate col (totalRows t)))) (columns t)
                           @ [\<lparr>name = ''nettoyage_effectue'', ctype = Categorical, vals = flags,
                               missingCount = 0, missingRate = Fin 0\<rparr>]\<rparr>,
              \<lparr>totalRowsCleaned = length rows,
               columnReports = map (\<lambda>col. snd (projr (cleanColumn isoDate col (totalRows t)))) (columns t),
               summary_missingValuesImputed =
                 sum_list (map missingValuesImputed
                    (map (\<lambda>col. snd (projr (cleanColumn isoDate col (totalRows t)))) (columns t))),
               summary_erroneousValuesFixed =
                 sum_list (map erroneousValuesFixed
                    (map (\<lambda>col. snd (projr (cleanColumn isoDate col (totalRows t)))) (columns t))),
               summary_typesConverted =
                 length (filter typeConverted
                    (map (\<lambda>col. snd (projr (cleanColumn isoDate col (totalRows t)))) (columns t)))\<rparr>)"
    by (simp add: cleanData_def e Let_def)
  show ?thesis
    by (intro exI [of _ rows] exI [of _ flags] conjI c d s' tr b' l')
qed



lemma example_table_cleaned:
  "cleanData (\<lambda>v. None) example_table
     = Inr (\<lparr>totalRows = 2, totalColumns = 2,
             columns = [\<lparr>name = ''city'', ctype = Text, vals = [CStr ''Paris'', CStr ''Paris''],
                         missingCount = 0, missingRate = Fin 0\<rparr>,
                        \<lparr>name = ''nettoyage_effectue'', ctype = Categorical,
                         vals = [CBool False, CBool True],
                         missingCount = 0, missingRate = Fin 0\<rparr>],
             fileName = ''cities.csv''\<rparr>,
            \<lparr>totalRowsCleaned = 1,
             columnReports = [\<lparr>columnName = ''city'', originalType = Text, finalType = Text,
                               missingValuesImputed = 1, erroneousValuesFixed = 1,
                               typeConverted = False,
                               imputationMethod = Some ''most_frequent_text''\<rparr>],
             summary_missingValuesImputed = 1, summary_erroneousValuesFixed = 1,
             summary_typesConverted = 0\<rparr>)"
  by code_simp

text \<open>
  C3, as the claim states it, fails: the appended column is named \<open>nettoyage_effectue\<close>;
  no column of the cleaned table is named \<open>cleaning_performed\<close>.
\<close>

theorem C3_flag_counterexample:
  "\<exists>ct rep. cleanData (\<lambda>v. None) example_table = Inr (ct, rep)
     \<and> name (last (columns ct)) = ''nettoyage_effectue''
     \<and> list_all (\<lambda>c. name c \<noteq> ''cleaning_performed'') (columns ct)"
  by (simp add: example_table_cleaned)

text \<open>
  C3, amended: the cleaner appends exactly one column, named \<open>nettoyage_effectue\<close>, after
  the cleaned columns. Its values at the rows below \<open>totalRows\<close> are booleans. At every row
  \<open>i\<close> where no cleaned value is \<open>NaN\<close>, its value is \<open>true\<close> iff for at least one
  original column the cleaned value at row \<open>i\<close> differs from the raw value at row \<open>i\<close>. The
  report's \<open>totalRowsCleaned\<close> is the number of \<open>true\<close> entries of the flag column and, when
  no cleaned value is \<open>NaN\<close>, the number of rows with at least one changed cell. The rows
  that hold a \<open>NaN\<close> are left out of the statement.
\<close>

theorem C3_flag_column:
  "\<exists>ct rep. cleanData isoDate t = Inr (ct, rep)
     \<and> length (columns ct) = length (columns t) + 1
     \<and> (\<forall>k < length (columns t).
           \<exists>r. cleanColumn isoDate (columns t ! k) (totalRows t) = Inr (columns ct ! k, r))
     \<and> name (last (columns ct)) = ''nettoyage_effectue''
     \<and> (\<forall>i < totalRows t. \<exists>b. js_index (vals (last (columns ct))) i = CBool b)
     \<and> (\<forall>i. (\<forall>k < length (columns t). js_index (vals (columns ct ! k)) i \<noteq> CNum NaN) \<longrightarrow>
            (js_index (vals (last (columns ct))) i = CBool True
             \<longleftrightarrow> (\<exists>k < length (columns t).
                    js_index (vals (columns ct ! k)) i \<noteq> js_index (vals (columns t ! k)) i)))
     \<and> ((\<forall>k < length (columns t). CNum NaN \<notin> set (vals (columns ct ! k))) \<longrightarrow>
          totalRowsCleaned rep
            = card {i. \<exists>k < length (columns t).
                         js_index (vals (columns ct ! k)) i \<noteq> js_index (vals (columns t ! k)) i})
     \<and> totalRowsCleaned rep = length (filter (\<lambda>v. v = CBool True) (vals (last (columns ct))))"
proof -
  let ?cl = "\<lambda>col. fst (projr (cleanColumn isoDate col (totalRows t)))"
  obtain rows flags ct rep where c: "cleanData isoDate t = Inr (ct, rep)"
    and ct: "ct = t\<lparr>totalColumns := totalColumns t + 1,
                columns := map ?cl (columns t)
                           @ [\<lparr>name = ''nettoyage_effectue'', ctype = Categorical, vals = flags,
                               missingCount = 0, missingRate = Fin 0\<rparr>]\<rparr>"
    and rp: "totalRowsCleaned rep = length rows"
    and d: "distinct rows"
    and s: "set rows = {i. \<exists>col \<in> set (columns t).
                        \<not> strict_eq (js_index (vals (?cl col)) i) (js_index (vals col) i)}"
    and tr: "\<forall>j. js_index flags j = CBool True \<longleftrightarrow> j \<in> set rows"
    and b: "\<forall>j < totalRows t. \<exists>b. js_index flags j = CBool b"
    using cleanData_spec [of isoDate t] by (elim exE conjE) simp
  have nth: "columns ct ! k = ?cl (columns t ! k)" if "k < length (columns t)" for k
    using that by (simp add: ct nth_append)
  have lst: "last (columns ct) = \<lparr>name = ''nettoyage_effectue'', ctype = Categorical, vals = flags,
                               missingCount = 0, missingRate = Fin 0\<rparr>"
    by (simp add: ct)
  have s': "set rows = {i. \<exists>k < length (columns t).
               \<not> strict_eq (js_index (vals (columns ct ! k)) i) (js_index (vals (columns t ! k)) i)}"
  proof -
    have "(\<exists>col \<in> set (columns t). \<not> strict_eq (js_index (vals (?cl col)) i) (js_index (vals col) i))
            \<longleftrightarrow> (\<exists>k < length (columns t).
                   \<not> strict_eq (js_index (vals (columns ct ! k)) i) (js_index (vals (columns t ! k)) i))"
      (is "?L \<longleftrightarrow> ?R") for i
    proof
      assume ?L
      then obtain col where "col \<in> set (columns t)"
        and n: "\<not> strict_eq (js_index (vals (?cl col)) i) (js_index (vals col) i)"
        by blast
      then obtain k where k: "k < length (columns t)" and "col = columns t ! k"
        by (auto simp add: in_set_conv_nth)
      then have "\<not> strict_eq (js_index (vals (columns ct ! k)) i) (js_index (vals (columns t ! k)) i)"
        using n by (simp add: nth [OF k])
      then show ?R using k by blast
    next
      assume ?R
      then obtain k where k: "k < length (columns t)"
        and n: "\<not> strict_eq (js_index (vals (columns ct ! k)) i) (js_index (vals (columns t ! k)) i)"
        by blast
      have "columns t ! k \<in> set (columns t)"
        using k by simp
      moreover have "\<not> strict_eq (js_index (vals (?cl (columns t ! k))) i) (js_index (vals (columns t ! k)) i)"
        using n by (simp add: nth [OF k])
      ultimately show ?L by blast
    qed
    then show ?thesis unfolding s by simp
  qed
  have p1: "length (columns ct) = length (columns t) + 1"
    by (simp add: ct)
  have p2: "\<forall>k < length (columns t).
           \<exists>r. cleanColumn isoDate (columns t ! k) (totalRows t) = Inr (columns ct ! k, r)"
  proof (intro allI impI)
    fix k assume k: "k < length (columns t)"
    have "cleanColumn isoDate (columns t ! k) (totalRows t)
            = Inr (columns ct ! k, snd (projr (cleanColumn isoDate (columns t ! k) (totalRows t))))"
      using cleanColumn_Inr [of isoDate "columns t ! k" "totalRows t"] by (simp add: nth [OF k])
    then show "\<exists>r. cleanColumn isoDate (columns t ! k) (totalRows t) = Inr (columns ct ! k, r)"
      by (rule exI)
  qed
  have p3: "name (last (columns ct)) = ''nettoyage_effectue''"
    by (simp add: lst)
  have p4: "\<forall>i < totalRows t. \<exists>b. js_index (vals (last (columns ct))) i = CBool b"
    using b by (simp add: lst)
  have p5: "\<forall>i. (\<forall>k < length (columns t). js_index (vals (columns ct ! k)) i \<noteq> CNum NaN) \<longrightarrow>
            (js_index (vals (last (columns ct))) i = CBool True
             \<longleftrightarrow> (\<exists>k < length (columns t).
                    js_index (vals (columns ct ! k)) i \<noteq> js_index (vals (columns t ! k)) i))"
  proof (intro allI impI)
    fix i
    assume h: "\<forall>k < length (columns t). js_index (vals (columns ct ! k)) i \<noteq> CNum NaN"
    have "i \<in> set rows \<longleftrightarrow> (\<exists>k < length (columns t).
                    js_index (vals (columns ct ! k)) i \<noteq> js_index (vals (columns t ! k)) i)"
      unfolding s' using h by (auto simp add: strict_eq_def)
    then show "js_index (vals (last (columns ct))) i = CBool True
             \<longleftrightarrow> (\<exists>k < length (columns t).
                    js_index (vals (columns ct ! k)) i \<noteq> js_index (vals (columns t ! k)) i)"
      using tr by (simp add: lst)
  qed
  have p6: "(\<forall>k < length (columns t). CNum NaN \<notin> set (vals (columns ct ! k))) \<longrightarrow>
          totalRowsCleaned rep
            = card {i. \<exists>k < length (columns t).
                         js_index (vals (columns ct ! k)) i \<noteq> js_index (vals (columns t ! k)) i}"
  proof
    assume h: "\<forall>k < length (columns t). CNum NaN \<notin> set (vals (columns ct ! k))"
    have n: "js_index (vals (columns ct ! k)) i \<noteq> CNum NaN" if "k < length (columns t)" for k i
    proof (cases "i < length (vals (columns ct ! k))")
      case True
      then have "vals (columns ct ! k) ! i \<in> set (vals (columns ct ! k))"
        by (rule nth_mem)
      moreover have "CNum NaN \<notin> set (vals (columns ct ! k))"
        using h that by simp
      ultimately have "vals (columns ct ! k) ! i \<noteq> CNum NaN"
        by auto
      then show ?thesis
        using True by (simp add: js_index_def)
    next
      case False
      then show ?thesis
        by (simp add: js_index_def)
    qed
    have "set rows = {i. \<exists>k < length (columns t).
                         js_index (vals (columns ct ! k)) i \<noteq> js_index (vals (columns t ! k)) i}"
      unfolding s' using n by (auto simp add: strict_eq_def)
    then show "totalRowsCleaned rep
            = card {i. \<exists>k < length (columns t).
                         js_index (vals (columns ct ! k)) i \<noteq> js_index (vals (columns t ! k)) i}"
      using d rp by (simp add: distinct_card [symmetric])
  qed
  have p7: "totalRowsCleaned rep = length (filter (\<lambda>v. v = CBool True) (vals (last (columns ct))))"
    using count_true_flags [OF d tr] rp by (simp add: lst)
  show ?thesis
    by (intro exI [of _ ct] exI [of _ rep] conjI c p1 p2 p3 p4 p5 p6 p7)
qed

theorem C3_flag_column_witness:
  "\<exists>ct rep. cleanData (\<lambda>v. None) example_table = Inr (ct, rep)
     \<and> length (columns ct) = 2
     \<and> name (last (columns ct)) = ''nettoyage_effectue''
     \<and> list_all (\<lambda>k. js_index (vals (columns ct ! k)) 1 \<noteq> CNum NaN)
          [0..<length (columns example_table)]
     \<and> js_index (vals (columns ct ! 0)) 1 \<noteq> js_index (vals (columns example_table ! 0)) 1
     \<and> js_index (vals (last (columns ct))) 1 = CBool True
     \<and> totalRowsCleaned rep = length (filter (\<lambda>v. v = CBool True) (vals (last (columns ct))))"
proof -
  obtain ct rep where c: "cleanData (\<lambda>v. None) example_table = Inr (ct, rep)"
    and l: "length (columns ct) = length (columns example_table) + 1"
    and nm: "name (last (columns ct)) = ''nettoyage_effectue''"
    and fl: "\<forall>i. (\<forall>k < length (columns example_table).
                     js_index (vals (columns ct ! k)) i \<noteq> CNum NaN) \<longrightarrow>
            (js_index (vals (last (columns ct))) i = CBool True
             \<longleftrightarrow> (\<exists>k < length (columns example_table).
                    js_index (vals (columns ct ! k)) i
                      \<noteq> js_index (vals (columns example_table ! k)) i))"
    and cnt: "totalRowsCleaned rep = length (filter (\<lambda>v. v = CBool True) (vals (last (columns ct))))"
    using C3_flag_column [of "\<lambda>v. None" example_table] by (elim exE conjE)
  have cols: "columns ct ! 0 = \<lparr>name = ''city'', ctype = Text, vals = [CStr ''Paris'', CStr ''Paris''],
                         missingCount = 0, missingRate = Fin 0\<rparr>"
    using c by (auto simp add: example_table_cleaned)
  have len: "length (columns example_table) = 1"
    by (simp add: example_table_def)
  have h: "\<forall>k < length (columns example_table). js_index (vals (columns ct ! k)) 1 \<noteq> CNum NaN"
    by (simp add: len cols js_index_def)
  have ch: "js_index (vals (columns ct ! 0)) 1 \<noteq> js_index (vals (columns example_table ! 0)) 1"
    by (simp add: cols js_index_def example_table_def)
  have ex: "\<exists>k < length (columns example_table).
              js_index (vals (columns ct ! k)) 1 \<noteq> js_index (vals (columns example_table ! k)) 1"
    using ch len by auto
  have t: "js_index (vals (last (columns ct))) 1 = CBool True"
    using fl h ex by blast
  have h': "list_all (\<lambda>k. js_index (vals (columns ct ! k)) 1 \<noteq> CNum NaN)
              [0..<length (columns example_table)]"
    using h by (simp add: list_all_iff)
  have l': "length (columns ct) = 2"
    using l len by simp
  show ?thesis
    by (intro exI [of _ ct] exI [of _ rep] conjI c l' nm h' ch t cnt)
qed

text \<open>
  A row that holds a \<open>NaN\<close>: the rows are compared with \<open>!==\<close>, under which a \<open>NaN\<close>
  cell differs from itself, so the row is marked although none of its cells has changed. The
  comment of the code on this loop is "Mark rows that were modified".
\<close>

lemma nan_row_is_marked:
  "cleanData (\<lambda>v. None) nan_table
     = Inr (\<lparr>totalRows = 1, totalColumns = 2,
             columns = [\<lparr>name = ''x'', ctype = Text, vals = [CNum NaN],
                         missingCount = 0, missingRate = Fin 0\<rparr>,
                        \<lparr>name = ''nettoyage_effectue'', ctype = Categorical, vals = [CBool True],
                         missingCount = 0, missingRate = Fin 0\<rparr>],
             fileName = ''t''\<rparr>,
            \<lparr>totalRowsCleaned = 1,
             columnReports = [\<lparr>columnName = ''x'', originalType = Text, finalType = Text,
                               missingValuesImputed = 0, erroneousValuesFixed = 0,
                               typeConverted = False,
                               imputationMethod = Some ''most_frequent_text''\<rparr>],
             summary_missingValuesImputed = 0, summary_erroneousValuesFixed = 0,
             summary_typesConverted = 0\<rparr>)"
  by code_simp

section \<open>Edge cases of the computations\<close>

text \<open>
  Without a numeric value the numerical statistics are all zero, a column whose values are
  all missing is returned unchanged by the imputation, and the imputation, the cleaning of a
  column and the cleaning of a table return a result on every input: the reduction that
  would raise on an empty array never meets one.
\<close>

lemma edge_defaults:
  "numericValues cells = [] \<Longrightarrow>
     calculateNumericalStats cells
       = \<lparr>mean = Fin 0, median = Fin 0, std = Fin 0, min_val = Fin 0, max_val = Fin 0,
          q1 = Fin 0, q3 = Fin 0, outliers = []\<rparr>"
  "\<forall>v \<in> set cells. isMissing v \<Longrightarrow>
     imputeMissingValues cells ty = Inr (cells, 0, ''no_imputation_possible'')"
  "\<exists>r. imputeMissingValues cells ty = Inr r"
  "\<exists>r. cleanColumn isoDate col n = Inr r"
  "\<exists>r. cleanData isoDate t = Inr r"
proof -
  show "numericValues cells = [] \<Longrightarrow>
     calculateNumericalStats cells
       = \<lparr>mean = Fin 0, median = Fin 0, std = Fin 0, min_val = Fin 0, max_val = Fin 0,
          q1 = Fin 0, q3 = Fin 0, outliers = []\<rparr>"
    by (simp add: calculateNumericalStats_def)
  show "\<forall>v \<in> set cells. isMissing v \<Longrightarrow>
     imputeMissingValues cells ty = Inr (cells, 0, ''no_imputation_possible'')"
    by (simp add: imputeMissingValues_def filter_empty_conv)
  show "\<exists>r. imputeMissingValues cells ty = Inr r"
    using imputeMissingValues_total [of cells ty] by blast
  show "\<exists>r. cleanColumn isoDate col n = Inr r"
    using cleanColumn_total [of isoDate col n] by blast
  show "\<exists>r. cleanData isoDate t = Inr r"
    using cleanData_spec [of isoDate t] by blast
qed

lemma null_cell_pairs:
  "pearson_pairs [CNull, CStr ''2''] [CStr ''3'', CStr ''5''] = [(Fin 0, Fin 3), (Fin 2, Fin 5)]"
  by code_simp

text \<open>
  C7: a correlation over fewer than 2 usable rows is meant to give the coefficient 0. On
  \<open>x = [null, "2"]\<close>, \<open>y = ["3", "5"]\<close> the first row has no value of \<open>x\<close>, so one usable
  row remains; the code keeps both rows, the \<open>null\<close> entering as the number 0, and returns
  1. This is the defect of C4, met here through a \<open>null\<close> cell.
\<close>

theorem C7_one_usable_row_gives_one:
  "isMissing CNull
   \<and> length (filter (\<lambda>(a, b). \<not> isMissing a \<and> \<not> isMissing b)
               (zip [CNull, CStr ''2''] [CStr ''3'', CStr ''5''])) = 1
   \<and> pearson_pairs [CNull, CStr ''2''] [CStr ''3'', CStr ''5''] = [(Fin 0, Fin 3), (Fin 2, Fin 5)]
   \<and> calculatePearsonCorrelation [CNull, CStr ''2''] [CStr ''3'', CStr ''5''] = Fin 1"
proof -
  have a: "isMissing CNull" "\<not> isMissing (CStr ''2'')" "\<not> isMissing (CStr ''3'')"
    "\<not> isMissing (CStr ''5'')"
    by code_simp+
  have b: "calculatePearsonCorrelation [CNull, CStr ''2''] [CStr ''3'', CStr ''5''] = Fin 1"
    unfolding calculatePearsonCorrelation_def null_cell_pairs
    by (simp add: pearson_numerator_def pearson_denominator_def round_half_away_def fixed_value_def)
  show ?thesis
    by (simp add: a b null_cell_pairs)
qed

theorem C7_one_usable_row_gives_one_witness:
  "calculatePearsonCorrelation [CNull, CStr ''2''] [CStr ''3'', CStr ''5''] \<noteq> Fin 0"
  using C7_one_usable_row_gives_one by simp

section \<open>The correlation matrix\<close>

lemma js_mul_commute: "js_mul a b = js_mul b a"
  by (cases a; cases b) simp_all

lemma foldl_set_entry_lookup:
  "key \<noteq> ''__proto__'' \<Longrightarrow>
     foldl (\<lambda>row x. set_entry row (k x) (g x)) row0 xs key
       = (case List.find (\<lambda>x. k x = key) (rev xs) of None \<Rightarrow> row0 key | Some x \<Rightarrow> Some (g x))"
  by (induction xs rule: rev_induct) (simp_all add: set_entry_def)

lemma foldl_set_row_lookup:
  "key \<noteq> ''__proto__'' \<Longrightarrow>
     own_rows (foldl (\<lambda>obj x. set_row obj (k x) (g x)) obj0 xs) key
       = (case List.find (\<lambda>x. k x = key) (rev xs) of
            None \<Rightarrow> own_rows obj0 key | Some x \<Rightarrow> Some (g x))"
  by (induction xs rule: rev_induct) (simp_all add: set_row_def)

lemma pairs_up_to_min:
  "pearson_pairs x y
     = filter (\<lambda>(a, b). \<not> isNaN a \<and> \<not> isNaN b)
         (map (\<lambda>i. (js_Number (x ! i), js_Number (y ! i))) [0..<min (length x) (length y)])"
proof -
  let ?m = "min (length x) (length y)"
  let ?ok = "\<lambda>(a, b). \<not> isNaN a \<and> \<not> isNaN b"
  let ?f = "\<lambda>i. (js_Number (x ! i), js_Number (js_index y i))"
  have split: "[0..<length x] = [0..<?m] @ [?m..<length x]"
    by (metis le_add_diff_inverse min.cobounded1 upt_add_eq_append zero_le)
  have low: "map ?f [0..<?m] = map (\<lambda>i. (js_Number (x ! i), js_Number (y ! i))) [0..<?m]"
    by (simp add: js_index_def)
  have high: "filter ?ok (map ?f [?m..<length x]) = []"
    by (auto simp add: filter_empty_conv js_index_def isNaN_def)
  have "pearson_pairs x y = filter ?ok (map ?f [0..<?m]) @ filter ?ok (map ?f [?m..<length x])"
    unfolding pearson_pairs_def by (subst split) simp
  then show ?thesis
    by (simp only: high low append_Nil2)
qed

lemma swap_filtered_pairs:
  "map prod.swap (filter (\<lambda>(a, b). \<not> isNaN a \<and> \<not> isNaN b) (map (\<lambda>i. (f i, g i)) idx))
     = filter (\<lambda>(a, b). \<not> isNaN a \<and> \<not> isNaN b) (map (\<lambda>i. (g i, f i)) idx)"
  by (induction idx) auto

lemma pairs_swap: "pearson_pairs y x = map prod.swap (pearson_pairs x y)"
  by (simp only: pairs_up_to_min swap_filtered_pairs min.commute)

lemma sums_swap:
  "foldl (\<lambda>sum (a, b). js_add sum a) z (map prod.swap ps) = foldl (\<lambda>sum (a, b). js_add sum b) z ps"
  "foldl (\<lambda>sum (a, b). js_add sum b) z (map prod.swap ps) = foldl (\<lambda>sum (a, b). js_add sum a) z ps"
  "foldl (\<lambda>sum (a, b). js_add sum (js_mul a b)) z (map prod.swap ps)
     = foldl (\<lambda>sum (a, b). js_add sum (js_mul a b)) z ps"
  "foldl (\<lambda>sum (a, b). js_add sum (js_mul a a)) z (map prod.swap ps)
     = foldl (\<lambda>sum (a, b). js_add sum (js_mul b b)) z ps"
  "foldl (\<lambda>sum (a, b). js_add sum (js_mul b b)) z (map prod.swap ps)
     = foldl (\<lambda>sum (a, b). js_add sum (js_mul a a)) z ps"
proof (induction ps arbitrary: z)
  case Nil
  {
    case 1 show ?case by simp
  next
    case 2 show ?case by simp
  next
    case 3 show ?case by simp
  next
    case 4 show ?case by simp
  next
    case 5 show ?case by simp
  }
next
  case (Cons p ps)
  obtain a b where p: "p = (a, b)" by (cases p)
  {
    case 1 show ?case by (simp add: p Cons.IH)
  next
    case 2 show ?case by (simp add: p Cons.IH)
  next
    case 3 show ?case by (simp add: p Cons.IH js_mul_commute [of b a])
  next
    case 4 show ?case by (simp add: p Cons.IH)
  next
    case 5 show ?case by (simp add: p Cons.IH)
  }
qed

lemma numerator_swap: "pearson_numerator (map prod.swap ps) = pearson_numerator ps"
proof -
  have "js_mul (foldl (\<lambda>sum (a, b). js_add sum b) (Fin 0) ps) (foldl (\<lambda>sum (a, b). js_add sum a) (Fin 0) ps)
          = js_mul (foldl (\<lambda>sum (a, b). js_add sum a) (Fin 0) ps) (foldl (\<lambda>sum (a, b). js_add sum b) (Fin 0) ps)"
    by (rule js_mul_commute)
  then show ?thesis
    by (simp add: pearson_numerator_def sums_swap Let_def)
qed

lemma denominator_swap: "pearson_denominator (map prod.swap ps) = pearson_denominator ps"
proof -
  let ?n = "Fin (real (length ps))"
  let ?sx = "foldl (\<lambda>sum (a, b). js_add sum a) (Fin 0) ps"
  let ?sy = "foldl (\<lambda>sum (a, b). js_add sum b) (Fin 0) ps"
  let ?sx2 = "foldl (\<lambda>sum (a, b). js_add sum (js_mul a a)) (Fin 0) ps"
  let ?sy2 = "foldl (\<lambda>sum (a, b). js_add sum (js_mul b b)) (Fin 0) ps"
  have "pearson_denominator (map prod.swap ps)
          = js_sqrt (js_mul (js_sub (js_mul ?n ?sy2) (js_mul ?sy ?sy))
                            (js_sub (js_mul ?n ?sx2) (js_mul ?sx ?sx)))"
    by (simp add: pearson_denominator_def sums_swap Let_def)
  also have "\<dots> = js_sqrt (js_mul (js_sub (js_mul ?n ?sx2) (js_mul ?sx ?sx))
                                 (js_sub (js_mul ?n ?sy2) (js_mul ?sy ?sy)))"
    by (rule arg_cong [where f = js_sqrt]) (rule js_mul_commute)
  also have "\<dots> = pearson_denominator ps"
    by (simp add: pearson_denominator_def Let_def)
  finally show ?thesis .
qed

lemma pearson_symmetric: "calculatePearsonCorrelation y x = calculatePearsonCorrelation x y"
proof -
  have "calculatePearsonCorrelation y x
          = (let pairs = map prod.swap (pearson_pairs x y) in
             if length pairs < 2 then Fin 0
             else (let numerator = pearson_numerator pairs;
                       denominator = pearson_denominator pairs
                   in if denominator = Fin 0 then Fin 0
                      else js_toFixed 3 (js_div numerator denominator)))"
    by (simp only: calculatePearsonCorrelation_def pairs_swap [of y x])
  also have "\<dots> = calculatePearsonCorrelation x y"
    by (simp add: calculatePearsonCorrelation_def numerator_swap denominator_swap Let_def)
  finally show ?thesis .
qed

lemma correlation_row_lookup:
  "b \<noteq> ''__proto__'' \<Longrightarrow>
   correlation_row nc c1 b
     = (case List.find (\<lambda>c. name c = b) (rev nc) of
          None \<Rightarrow> None
        | Some c2 \<Rightarrow> Some (if name c1 = name c2 then Fin 1
                            else calculatePearsonCorrelation (vals c1) (vals c2)))"
  unfolding correlation_row_def by (simp add: foldl_set_entry_lookup)

lemma correlations_lookup:
  "a \<noteq> ''__proto__'' \<Longrightarrow>
   own_rows (calculateCorrelations t) a
     = (case List.find (\<lambda>c. name c = a) (rev (filter (\<lambda>col. ctype col = Numerical) (columns t))) of
          None \<Rightarrow> None
        | Some c1 \<Rightarrow> Some (correlation_row (filter (\<lambda>col. ctype col = Numerical) (columns t)) c1))"
  unfolding calculateCorrelations_def Let_def
  by (simp add: foldl_set_row_lookup split: option.splits)

lemma correlation_entry:
  "a \<noteq> ''__proto__'' \<Longrightarrow> b \<noteq> ''__proto__'' \<Longrightarrow>
   correlation_at (calculateCorrelations t) a b
     = (case List.find (\<lambda>c. name c = a) (rev (filter (\<lambda>col. ctype col = Numerical) (columns t))) of
          None \<Rightarrow> None
        | Some c1 \<Rightarrow>
            (case List.find (\<lambda>c. name c = b) (rev (filter (\<lambda>col. ctype col = Numerical) (columns t))) of
               None \<Rightarrow> None
             | Some c2 \<Rightarrow> Some (if name c1 = name c2 then Fin 1
                                 else calculatePearsonCorrelation (vals c1) (vals c2))))"
  by (simp add: correlation_at_def correlations_lookup correlation_row_lookup split: option.splits)

text \<open>
  Under every column name other than \<open>__proto__\<close> the matrix is as intended: a numerical
  column has the self-correlation 1, assigned and not computed, and the entries at \<open>(a, b)\<close>
  and at \<open>(b, a)\<close> are equal.
\<close>

lemma self_correlation_is_one:
  assumes "col \<in> set (columns t)" and "ctype col = Numerical" and "name col \<noteq> ''__proto__''"
  shows "correlation_at (calculateCorrelations t) (name col) (name col) = Some (Fin 1)"
proof -
  let ?nc = "filter (\<lambda>col. ctype col = Numerical) (columns t)"
  have "col \<in> set (rev ?nc)"
    using assms by simp
  then obtain c where c: "List.find (\<lambda>c. name c = name col) (rev ?nc) = Some c"
    by (cases "List.find (\<lambda>c. name c = name col) (rev ?nc)") (auto simp add: find_None_iff)
  show ?thesis
    by (simp add: correlation_entry [OF assms(3) assms(3)] c)
qed

lemma correlations_symmetric:
  assumes "a \<noteq> ''__proto__''" and "b \<noteq> ''__proto__''"
  shows "correlation_at (calculateCorrelations t) a b = correlation_at (calculateCorrelations t) b a"
  by (auto simp add: correlation_entry [OF assms] correlation_entry [OF assms(2) assms(1)]
      pearson_symmetric split: option.splits)

lemma linear_pairs:
  "pearson_pairs [CStr ''1'', CStr ''2'', CStr ''3''] [CStr ''2'', CStr ''4'', CStr ''6'']
     = [(Fin 1, Fin 2), (Fin 2, Fin 4), (Fin 3, Fin 6)]"
  by code_simp

lemma linear_correlation:
  "calculatePearsonCorrelation [CStr ''1'', CStr ''2'', CStr ''3''] [CStr ''2'', CStr ''4'', CStr ''6'']
     = Fin 1"
  unfolding calculatePearsonCorrelation_def linear_pairs
  by (simp add: pearson_numerator_def pearson_denominator_def round_half_away_def fixed_value_def)

lemma proto_table_correlations:
  "calculateCorrelations proto_table
     = \<lparr>own_rows = [''y'' \<mapsto> [''y'' \<mapsto> Fin 1]], proto_row = Some [''y'' \<mapsto> Fin 1]\<rparr>"
  by (simp add: calculateCorrelations_def proto_table_def correlation_row_def set_row_def
      set_entry_def linear_correlation)

text \<open>
  C5: every numerical column is meant to have the self-correlation 1, and the matrix is meant
  to be symmetric. For a table with a numerical column named \<open>__proto__\<close> beside a numerical
  column \<open>y\<close> the code stores no row of its own and no self-correlation for \<open>__proto__\<close>:
  the inner object becomes the prototype of the correlation object, and the assignment of 1
  under the key \<open>__proto__\<close> does nothing. The entry at \<open>(__proto__, y)\<close> is the coefficient
  1, read through the prototype, and the entry at \<open>(y, __proto__)\<close> is no number.
\<close>

theorem C5_proto_column:
  "list_all (\<lambda>col. ctype col = Numerical) (columns proto_table)
   \<and> map name (columns proto_table) = [''__proto__'', ''y'']
   \<and> own_rows (calculateCorrelations proto_table) ''__proto__'' = None
   \<and> correlation_at (calculateCorrelations proto_table) ''__proto__'' ''__proto__'' = None
   \<and> correlation_at (calculateCorrelations proto_table) ''y'' ''y'' = Some (Fin 1)
   \<and> correlation_at (calculateCorrelations proto_table) ''__proto__'' ''y'' = Some (Fin 1)
   \<and> correlation_at (calculateCorrelations proto_table) ''y'' ''__proto__'' = None"
  unfolding proto_table_correlations
  by (simp add: correlation_at_def proto_table_def)

theorem C5_proto_column_witness:
  "correlation_at (calculateCorrelations proto_table) ''__proto__'' ''__proto__'' \<noteq> Some (Fin 1)
   \<and> correlation_at (calculateCorrelations proto_table) ''__proto__'' ''y''
       \<noteq> correlation_at (calculateCorrelations proto_table) ''y'' ''__proto__''"
  using C5_proto_column by simp

section \<open>Rounding is monotone\<close>

lemma round_nonneg_bounds:
  assumes "0 \<le> r" "r < 10 ^ 21"
  shows "0 \<le> round_half_away d r" "round_half_away d r \<le> 10 ^ 21"
proof -
  define k :: int where "k = 10 ^ (21 + d)"
  have k: "real_of_int k = 10 ^ 21 * 10 ^ d"
    by (simp add: k_def power_add)
  have f0: "0 \<le> \<lfloor>r * 10 ^ d + 1 / 2\<rfloor>"
    using assms(1) by (simp add: zero_le_floor)
  have "r * 10 ^ d < 10 ^ 21 * 10 ^ d"
    using assms(2) by simp
  then have "r * 10 ^ d + 1 / 2 < real_of_int k + 1"
    unfolding k by linarith
  then have "r * 10 ^ d + 1 / 2 < real_of_int (k + 1)"
    by simp
  then have "\<lfloor>r * 10 ^ d + 1 / 2\<rfloor> < k + 1"
    by (simp only: floor_less_iff)
  then have "\<lfloor>r * 10 ^ d + 1 / 2\<rfloor> \<le> k"
    by simp
  then have "real_of_int \<lfloor>r * 10 ^ d + 1 / 2\<rfloor> \<le> real_of_int k"
    by (simp only: of_int_le_iff)
  then have "real_of_int \<lfloor>r * 10 ^ d + 1 / 2\<rfloor> \<le> 10 ^ 21 * 10 ^ d"
    by (simp only: k)
  then have up: "real_of_int \<lfloor>r * 10 ^ d + 1 / 2\<rfloor> / 10 ^ d \<le> 10 ^ 21"
    by (simp add: divide_le_eq)
  have e: "round_half_away d r = (if r = 0 then 0 else real_of_int \<lfloor>r * 10 ^ d + 1 / 2\<rfloor> / 10 ^ d)"
    using assms(1) by (simp add: round_half_away_def sgn_if)
  show "0 \<le> round_half_away d r"
    using f0 by (simp add: e)
  show "round_half_away d r \<le> 10 ^ 21"
    using up by (simp add: e)
qed

lemma round_neg: "round_half_away d (- r) = - round_half_away d r"
  by (simp add: round_half_away_def sgn_minus)

lemma round_nonneg_mono:
  assumes "0 \<le> a" "a \<le> b"
  shows "round_half_away d a \<le> round_half_away d b"
proof (cases "a = 0")
  case True
  have "0 \<le> \<lfloor>b * 10 ^ d + 1 / 2\<rfloor>"
    using assms by (simp add: zero_le_floor)
  then have "0 \<le> round_half_away d b"
    using assms by (simp add: round_half_away_def sgn_if)
  then show ?thesis
    using True by (simp add: round_half_away_def)
next
  case False
  then have pos: "0 < a" "0 < b" using assms by simp_all
  have "a * 10 ^ d + 1 / 2 \<le> b * 10 ^ d + 1 / 2"
    using assms(2) by simp
  then have "\<lfloor>a * 10 ^ d + 1 / 2\<rfloor> \<le> \<lfloor>b * 10 ^ d + 1 / 2\<rfloor>"
    by (rule floor_mono)
  then have "real_of_int \<lfloor>a * 10 ^ d + 1 / 2\<rfloor> / 10 ^ d \<le> real_of_int \<lfloor>b * 10 ^ d + 1 / 2\<rfloor> / 10 ^ d"
    by (simp add: divide_right_mono)
  then show ?thesis
    using pos by (simp add: round_half_away_def)
qed

lemma fixed_value_neg: "fixed_value d (- r) = - fixed_value d r"
  by (simp add: fixed_value_def round_neg)

lemma fixed_value_nonneg:
  assumes "0 \<le> r"
  shows "0 \<le> fixed_value d r"
  using assms round_nonneg_bounds(1) [of r d] by (simp add: fixed_value_def)

lemma fixed_value_nonneg_mono:
  assumes "0 \<le> a" "a \<le> b"
  shows "fixed_value d a \<le> fixed_value d b"
proof (cases "b < 10 ^ 21")
  case True
  then show ?thesis
    using assms round_nonneg_mono [OF assms, of d] by (simp add: fixed_value_def)
next
  case False
  then have b: "fixed_value d b = b" using assms by (simp add: fixed_value_def)
  show ?thesis
  proof (cases "a < 10 ^ 21")
    case True
    then have "fixed_value d a \<le> 10 ^ 21"
      using assms(1) round_nonneg_bounds(2) [of a d] by (simp add: fixed_value_def)
    then show ?thesis using b False by simp
  next
    case False
    then show ?thesis using assms b by (simp add: fixed_value_def)
  qed
qed

lemma fixed_value_mono:
  assumes "a \<le> b"
  shows "fixed_value d a \<le> fixed_value d b"
proof (cases "0 \<le> a")
  case True
  then show ?thesis using assms by (rule fixed_value_nonneg_mono)
next
  case a: False
  show ?thesis
  proof (cases "0 \<le> b")
    case True
    have "0 \<le> fixed_value d (- a)"
      using a by (intro fixed_value_nonneg) simp
    then have "fixed_value d a \<le> 0"
      by (simp add: fixed_value_neg)
    then show ?thesis
      using fixed_value_nonneg [OF True, of d] by simp
  next
    case False
    have "fixed_value d (- b) \<le> fixed_value d (- a)"
      using False assms by (intro fixed_value_nonneg_mono) simp_all
    then show ?thesis
      by (simp add: fixed_value_neg)
  qed
qed

lemma toFixed_mono: "a \<le> b \<Longrightarrow> js_le (js_toFixed d (Fin a)) (js_toFixed d (Fin b))"
  by (simp add: fixed_value_mono)

lemma fixed_value_int: "fixed_value d (real_of_int k) = real_of_int k"
proof (cases "\<bar>real_of_int k\<bar> \<ge> 10 ^ 21")
  case True
  then show ?thesis by (simp add: fixed_value_def)
next
  case False
  have e: "\<bar>real_of_int k\<bar> * 10 ^ d = real_of_int (\<bar>k\<bar> * 10 ^ d)"
    by simp
  have "\<lfloor>real_of_int (\<bar>k\<bar> * 10 ^ d) + 1 / 2\<rfloor> = \<bar>k\<bar> * 10 ^ d"
    by (rule floor_unique) simp_all
  then have "\<lfloor>\<bar>real_of_int k\<bar> * 10 ^ d + 1 / 2\<rfloor> = \<bar>k\<bar> * 10 ^ d"
    by (simp only: e)
  then have "round_half_away d (real_of_int k) = sgn (real_of_int k) * \<bar>real_of_int k\<bar>"
    by (simp add: round_half_away_def)
  then show ?thesis
    using False by (simp add: fixed_value_def sgn_if)
qed

section \<open>The sorted array\<close>

lemma js_le_refl: "\<not> isNaN x \<Longrightarrow> js_le x x"
  by (cases x) (simp_all add: isNaN_def)

lemma js_le_trans: "js_le x y \<Longrightarrow> js_le y z \<Longrightarrow> js_le x z"
  by (cases x; cases y; cases z) simp_all

lemma js_lt_le: "js_lt x y \<Longrightarrow> js_le x y"
  by (cases x; cases y) simp_all

lemma js_not_lt_le: "\<not> isNaN x \<Longrightarrow> \<not> isNaN y \<Longrightarrow> \<not> js_lt x y \<Longrightarrow> js_le y x"
  by (cases x; cases y) (simp_all add: isNaN_def)

lemma num_insert_sorted:
  assumes "sorted_wrt js_le ys" and "\<not> isNaN x" and "\<forall>y \<in> set ys. \<not> isNaN y"
  shows "sorted_wrt js_le (num_insert x ys) \<and> set (num_insert x ys) = insert x (set ys)"
  using assms
proof (induction ys)
  case Nil
  then show ?case by simp
next
  case (Cons y ys)
  show ?case
  proof (cases "js_lt x y")
    case True
    have xy: "js_le x y" using True by (rule js_lt_le)
    have "\<forall>z \<in> set ys. js_le x z"
      using Cons.prems(1) xy js_le_trans by auto
    then show ?thesis
      using True xy Cons.prems(1) by simp
  next
    case False
    have yx: "js_le y x"
      using Cons.prems(2) Cons.prems(3) False by (intro js_not_lt_le) simp_all
    have ih: "sorted_wrt js_le (num_insert x ys)" "set (num_insert x ys) = insert x (set ys)"
      using Cons.IH Cons.prems by simp_all
    show ?thesis
      using False yx ih Cons.prems(1) by (simp add: insert_commute)
  qed
qed

lemma num_sort_sorted:
  assumes "\<forall>x \<in> set xs. \<not> isNaN x"
  shows "sorted_wrt js_le (num_sort xs) \<and> set (num_sort xs) = set xs"
  using assms
proof (induction xs rule: rev_induct)
  case Nil
  then show ?case by (simp add: num_sort_def)
next
  case (snoc x xs)
  have s: "sorted_wrt js_le (num_sort xs)" "set (num_sort xs) = set xs"
    using snoc by simp_all
  have e: "num_sort (xs @ [x]) = num_insert x (num_sort xs)"
    by (simp add: num_sort_def)
  have "sorted_wrt js_le (num_insert x (num_sort xs))
          \<and> set (num_insert x (num_sort xs)) = insert x (set (num_sort xs))"
    using s snoc.prems by (intro num_insert_sorted) simp_all
  then show ?case
    by (simp add: e s(2))
qed

lemma first_le_last:
  assumes "sorted_wrt js_le s" and "s \<noteq> []" and "\<forall>x \<in> set s. \<not> isNaN x"
  shows "js_le (num_index s 0) (num_index s (int (length s) - 1))"
proof (cases "length s = 1")
  case True
  then have "num_index s (int (length s) - 1) = s ! 0" "num_index s 0 = s ! 0"
    by (simp_all add: num_index_def)
  moreover have "\<not> isNaN (s ! 0)"
    using assms(2) assms(3) by (simp add: nth_mem)
  ultimately show ?thesis
    by (simp add: js_le_refl)
next
  case False
  have "length s \<noteq> 0"
    using assms(2) by simp
  then have l: "0 < length s - 1" "length s - 1 < length s"
    using False by linarith+
  have "js_le (s ! 0) (s ! (length s - 1))"
    using assms(1) l by (rule sorted_wrt_nth_less)
  moreover have "num_index s 0 = s ! 0" "num_index s (int (length s) - 1) = s ! (length s - 1)"
    using l assms(2) by (simp_all add: num_index_def nat_diff_distrib')
  ultimately show ?thesis
    by simp
qed

lemma numeric_values_are_numbers: "x \<in> set (numericValues cells) \<Longrightarrow> \<not> isNaN x"
  by (auto simp add: numericValues_def)

lemma minimum_le_maximum:
  "js_le (min_val (calculateNumericalStats cells)) (max_val (calculateNumericalStats cells))"
proof (cases "numericValues cells = []")
  case True
  then show ?thesis
    by (simp add: calculateNumericalStats_def)
next
  case False
  let ?s = "num_sort (numericValues cells)"
  have n: "\<forall>x \<in> set (numericValues cells). \<not> isNaN x"
    using numeric_values_are_numbers by blast
  have s: "sorted_wrt js_le ?s" "set ?s = set (numericValues cells)"
    using num_sort_sorted [OF n] by simp_all
  have ne: "?s \<noteq> []"
    using False s(2) by auto
  have "js_le (num_index ?s 0) (num_index ?s (int (length ?s) - 1))"
    using s(1) ne n by (intro first_le_last) (simp_all add: s(2))
  then show ?thesis
    using False by (simp add: calculateNumericalStats_def Let_def)
qed

section \<open>Quartiles of a sorted array\<close>

lemma num_insert_fin:
  "sorted ss \<Longrightarrow>
     \<exists>ss'. num_insert (Fin r) (map Fin ss) = map Fin ss' \<and> sorted ss'
           \<and> set ss' = insert r (set ss) \<and> length ss' = Suc (length ss)"
proof (induction ss)
  case Nil
  show ?case by (rule exI [of _ "[r]"]) simp
next
  case (Cons s ss)
  show ?case
  proof (cases "r < s")
    case True
    show ?thesis
      using True Cons.prems by (intro exI [of _ "r # s # ss"]) auto
  next
    case False
    obtain ss' where i: "num_insert (Fin r) (map Fin ss) = map Fin ss'" "sorted ss'"
      "set ss' = insert r (set ss)" "length ss' = Suc (length ss)"
      using Cons.IH Cons.prems by auto
    show ?thesis
      using False i Cons.prems by (intro exI [of _ "s # ss'"]) auto
  qed
qed

lemma num_sort_fin:
  "\<exists>ss. num_sort (map Fin rs) = map Fin ss \<and> sorted ss \<and> length ss = length rs
        \<and> set ss = set rs"
proof (induction rs rule: rev_induct)
  case Nil
  show ?case by (rule exI [of _ "[]"]) (simp add: num_sort_def)
next
  case (snoc r rs)
  obtain ss where s: "num_sort (map Fin rs) = map Fin ss" "sorted ss" "length ss = length rs"
    "set ss = set rs"
    using snoc by (elim exE conjE)
  obtain ss' where s': "num_insert (Fin r) (map Fin ss) = map Fin ss'" "sorted ss'"
    "set ss' = insert r (set ss)" "length ss' = Suc (length ss)"
    using num_insert_fin [OF s(2), of r] by (elim exE conjE)
  have "num_sort (map Fin (rs @ [r])) = num_insert (Fin r) (num_sort (map Fin rs))"
    by (simp add: num_sort_def)
  then have "num_sort (map Fin (rs @ [r])) = map Fin ss'"
    by (simp add: s(1) s'(1))
  then show ?case
    using s'(2) s'(3) s'(4) s(3) s(4) by (intro exI [of _ ss']) simp
qed

lemma num_index_fin:
  "0 \<le> i \<Longrightarrow> i < int (length ss) \<Longrightarrow> num_index (map Fin ss) i = Fin (ss ! nat i)"
  by (simp add: num_index_def)

lemma percentile_bounds:
  assumes "sorted ss" "ss \<noteq> []" "0 \<le> p" "p \<le> 100"
  shows "\<exists>q. calculatePercentile (map Fin ss) p = Fin q
           \<and> ss ! nat \<lfloor>p / 100 * (real (length ss) - 1)\<rfloor> \<le> q
           \<and> q \<le> ss ! nat \<lceil>p / 100 * (real (length ss) - 1)\<rceil>"
proof -
  define x where "x = p / 100 * (real (length ss) - 1)"
  have n: "1 \<le> real (length ss)"
    using assms(2) by (cases ss) simp_all
  have x0: "0 \<le> x"
    unfolding x_def using assms(3) n by simp
  have "p / 100 \<le> 1" using assms(4) by simp
  then have "x \<le> 1 * (real (length ss) - 1)"
    unfolding x_def using n by (intro mult_right_mono) simp_all
  then have x1: "x \<le> real (length ss) - 1" by simp
  have l0: "0 \<le> \<lfloor>x\<rfloor>" using x0 by simp
  have "x \<le> real_of_int (int (length ss) - 1)"
    using x1 by simp
  then have "\<lceil>x\<rceil> \<le> int (length ss) - 1"
    by (simp only: ceiling_le_iff)
  then have u1: "\<lceil>x\<rceil> < int (length ss)" by simp
  have lu: "\<lfloor>x\<rfloor> \<le> \<lceil>x\<rceil>" by (rule floor_le_ceiling)
  have l1: "\<lfloor>x\<rfloor> < int (length ss)" using lu u1 by (rule le_less_trans)
  have u0: "0 \<le> \<lceil>x\<rceil>" using l0 lu by (rule order_trans)
  have il: "num_index (map Fin ss) \<lfloor>x\<rfloor> = Fin (ss ! nat \<lfloor>x\<rfloor>)"
    using l0 l1 by (rule num_index_fin)
  have iu: "num_index (map Fin ss) \<lceil>x\<rceil> = Fin (ss ! nat \<lceil>x\<rceil>)"
    using u0 u1 by (rule num_index_fin)
  have nl: "nat \<lfloor>x\<rfloor> \<le> nat \<lceil>x\<rceil>"
    using lu by (rule nat_mono)
  have nu: "nat \<lceil>x\<rceil> < length ss"
    using u0 u1 by linarith
  have le: "ss ! nat \<lfloor>x\<rfloor> \<le> ss ! nat \<lceil>x\<rceil>"
    using assms(1) nl nu by (rule sorted_nth_mono)
  have cp: "calculatePercentile (map Fin ss) p
              = (if \<lfloor>x\<rfloor> = \<lceil>x\<rceil> then num_index (map Fin ss) \<lfloor>x\<rfloor>
                 else js_add (js_mul (num_index (map Fin ss) \<lfloor>x\<rfloor>) (Fin (1 - (x - real_of_int \<lfloor>x\<rfloor>))))
                             (js_mul (num_index (map Fin ss) \<lceil>x\<rceil>) (Fin (x - real_of_int \<lfloor>x\<rfloor>))))"
    by (simp only: calculatePercentile_def x_def Let_def length_map)
  show ?thesis
  proof (cases "\<lfloor>x\<rfloor> = \<lceil>x\<rceil>")
    case True
    have "calculatePercentile (map Fin ss) p = Fin (ss ! nat \<lfloor>x\<rfloor>)"
      using True il by (simp add: cp)
    then show ?thesis
      using True unfolding x_def [symmetric] by simp
  next
    case False
    define w where "w = x - real_of_int \<lfloor>x\<rfloor>"
    have w: "0 \<le> w" "w \<le> 1"
      unfolding w_def by linarith+
    define a b where "a = ss ! nat \<lfloor>x\<rfloor>" and "b = ss ! nat \<lceil>x\<rceil>"
    have ab: "a \<le> b" using le by (simp add: a_def b_def)
    have "calculatePercentile (map Fin ss) p = Fin (a * (1 - w) + b * w)"
      using False il iu by (simp add: cp w_def a_def b_def)
    moreover have "a \<le> a * (1 - w) + b * w"
    proof -
      have "a * (1 - w) + a * w \<le> a * (1 - w) + b * w"
        using ab w(1) by (simp add: mult_right_mono)
      then show ?thesis by (simp add: algebra_simps)
    qed
    moreover have "a * (1 - w) + b * w \<le> b"
    proof -
      have "a * (1 - w) + b * w \<le> b * (1 - w) + b * w"
        using ab w(2) by (simp add: mult_right_mono)
      then show ?thesis by (simp add: algebra_simps)
    qed
    ultimately show ?thesis
      unfolding x_def [symmetric] a_def b_def by blast
  qed
qed

lemma median_bounds:
  assumes "sorted ss" "ss \<noteq> []"
  shows "\<exists>m. calculateMedian (map Fin ss) = Fin m
           \<and> ss ! ((length ss - 1) div 2) \<le> m \<and> m \<le> ss ! (length ss div 2)"
proof -
  have n: "0 < length ss" using assms(2) by simp
  show ?thesis
  proof (cases "length ss mod 2 = 0")
    case True
    then have n2: "2 \<le> length ss" using n by presburger
    have i: "(length ss - 1) div 2 = length ss div 2 - 1"
      using True n by presburger
    have lo: "num_index (map Fin ss) (int (length ss div 2) - 1) = Fin (ss ! (length ss div 2 - 1))"
      using n2 by (simp add: num_index_def nat_diff_distrib')
    have hi: "num_index (map Fin ss) (int (length ss div 2)) = Fin (ss ! (length ss div 2))"
      using n by (simp add: num_index_def)
    have le: "ss ! (length ss div 2 - 1) \<le> ss ! (length ss div 2)"
      using assms(1) n by (intro sorted_nth_mono) simp_all
    have "calculateMedian (map Fin ss) = Fin ((ss ! (length ss div 2 - 1) + ss ! (length ss div 2)) / 2)"
      using True lo hi by (simp add: calculateMedian_def Let_def)
    then show ?thesis
      using le unfolding i by (intro exI [of _ "(ss ! (length ss div 2 - 1) + ss ! (length ss div 2)) / 2"]) simp
  next
    case False
    then have i: "(length ss - 1) div 2 = length ss div 2"
      by presburger
    have hi: "num_index (map Fin ss) (int (length ss div 2)) = Fin (ss ! (length ss div 2))"
      using n by (simp add: num_index_def)
    have "calculateMedian (map Fin ss) = Fin (ss ! (length ss div 2))"
      using False hi by (simp add: calculateMedian_def Let_def)
    then show ?thesis
      unfolding i by simp
  qed
qed

lemma quartile_indices:
  assumes "m \<noteq> 1"
  shows "nat \<lceil>25 / 100 * (real (Suc m) - 1)\<rceil> \<le> m div 2"
    and "Suc m div 2 \<le> nat \<lfloor>75 / 100 * (real (Suc m) - 1)\<rfloor>"
proof -
  have h1: "m \<le> 2 * (m div 2) + 1" by presburger
  have h2: "2 * (Suc m div 2) \<le> m + 1" by presburger
  have "real m \<le> real (2 * (m div 2) + 1)"
    using h1 by (simp only: of_nat_le_iff)
  then have r1: "real m \<le> 2 * real (m div 2) + 1"
    by simp
  have "real (2 * (Suc m div 2)) \<le> real (m + 1)"
    using h2 by (simp only: of_nat_le_iff)
  then have r2: "2 * real (Suc m div 2) \<le> real m + 1"
    by simp
  have m: "m = 0 \<or> 2 \<le> real m"
    using assms by (cases m) auto
  have "real m / 4 \<le> real (m div 2)"
    using r1 m by auto
  then have "25 / 100 * (real (Suc m) - 1) \<le> real_of_int (int (m div 2))"
    by simp
  then have "\<lceil>25 / 100 * (real (Suc m) - 1)\<rceil> \<le> int (m div 2)"
    by (simp only: ceiling_le_iff)
  then show "nat \<lceil>25 / 100 * (real (Suc m) - 1)\<rceil> \<le> m div 2"
    by linarith
  have "real (Suc m div 2) \<le> 3 * real m / 4"
    using r2 m by auto
  then have "real_of_int (int (Suc m div 2)) \<le> 75 / 100 * (real (Suc m) - 1)"
    by simp
  then have "int (Suc m div 2) \<le> \<lfloor>75 / 100 * (real (Suc m) - 1)\<rfloor>"
    by (simp only: le_floor_iff)
  then show "Suc m div 2 \<le> nat \<lfloor>75 / 100 * (real (Suc m) - 1)\<rfloor>"
    by linarith
qed

lemma two_values:
  "calculatePercentile (map Fin [a, b]) 25 = Fin (a * (3 / 4) + b * (1 / 4))"
  "calculatePercentile (map Fin [a, b]) 75 = Fin (a * (1 / 4) + b * (3 / 4))"
  "calculateMedian (map Fin [a, b]) = Fin ((a + b) / 2)"
  by (simp_all add: calculatePercentile_def calculateMedian_def num_index_def ceiling_def Let_def)

lemma quartiles_ordered:
  assumes "sorted ss" "ss \<noteq> []"
  shows "\<exists>lo md hi. calculatePercentile (map Fin ss) 25 = Fin lo
           \<and> calculateMedian (map Fin ss) = Fin md
           \<and> calculatePercentile (map Fin ss) 75 = Fin hi
           \<and> ss ! 0 \<le> lo \<and> lo \<le> md \<and> md \<le> hi \<and> hi \<le> ss ! (length ss - 1)"
proof -
  obtain m where n: "length ss = Suc m"
    using assms(2) by (cases ss) auto
  obtain lo where lo: "calculatePercentile (map Fin ss) 25 = Fin lo"
    and lo1: "ss ! nat \<lfloor>25 / 100 * (real (length ss) - 1)\<rfloor> \<le> lo"
    and lo2: "lo \<le> ss ! nat \<lceil>25 / 100 * (real (length ss) - 1)\<rceil>"
    using percentile_bounds [OF assms, of 25] by auto
  obtain hi where hi: "calculatePercentile (map Fin ss) 75 = Fin hi"
    and hi1: "ss ! nat \<lfloor>75 / 100 * (real (length ss) - 1)\<rfloor> \<le> hi"
    and hi2: "hi \<le> ss ! nat \<lceil>75 / 100 * (real (length ss) - 1)\<rceil>"
    using percentile_bounds [OF assms, of 75] by auto
  obtain md where md: "calculateMedian (map Fin ss) = Fin md"
    and md1: "ss ! ((length ss - 1) div 2) \<le> md" and md2: "md \<le> ss ! (length ss div 2)"
    using median_bounds [OF assms] by auto
  have up: "nat \<lceil>75 / 100 * (real (length ss) - 1)\<rceil> \<le> length ss - 1"
  proof -
    have "75 / 100 * (real (Suc m) - 1) \<le> real_of_int (int m)"
      by simp
    then have "\<lceil>75 / 100 * (real (Suc m) - 1)\<rceil> \<le> int m"
      by (simp only: ceiling_le_iff)
    then show ?thesis
      unfolding n by linarith
  qed
  have a: "ss ! 0 \<le> lo"
  proof -
    have "ss ! 0 \<le> ss ! nat \<lfloor>25 / 100 * (real (length ss) - 1)\<rfloor>"
    proof (rule sorted_nth_mono [OF assms(1)])
      show "0 \<le> nat \<lfloor>25 / 100 * (real (length ss) - 1)\<rfloor>" by simp
      have "\<lfloor>25 / 100 * (real (Suc m) - 1)\<rfloor> \<le> \<lceil>75 / 100 * (real (Suc m) - 1)\<rceil>"
        by (intro order_trans [OF _ floor_le_ceiling] floor_mono) simp
      then show "nat \<lfloor>25 / 100 * (real (length ss) - 1)\<rfloor> < length ss"
        using up unfolding n by linarith
    qed
    then show ?thesis using lo1 by simp
  qed
  have d: "hi \<le> ss ! (length ss - 1)"
  proof -
    have "ss ! nat \<lceil>75 / 100 * (real (length ss) - 1)\<rceil> \<le> ss ! (length ss - 1)"
      using assms(1) up by (rule sorted_nth_mono) (simp add: n)
    then show ?thesis using hi2 by simp
  qed
  have bc: "lo \<le> md \<and> md \<le> hi"
  proof (cases "m = 1")
    case True
    then obtain x y where ss: "ss = [x, y]"
      using n by (cases ss; cases "tl ss") auto
    have xy: "x \<le> y" using assms(1) by (simp add: ss)
    have "lo = x * (3 / 4) + y * (1 / 4)" "md = (x + y) / 2" "hi = x * (1 / 4) + y * (3 / 4)"
      using lo md hi by (simp_all only: ss two_values jsnum.inject)
    then show ?thesis using xy by simp
  next
    case False
    have i1: "nat \<lceil>25 / 100 * (real (length ss) - 1)\<rceil> \<le> (length ss - 1) div 2"
      using quartile_indices(1) [OF False] by (simp only: n diff_Suc_1)
    have i2: "length ss div 2 \<le> nat \<lfloor>75 / 100 * (real (length ss) - 1)\<rfloor>"
      using quartile_indices(2) [OF False] by (simp only: n)
    have "ss ! nat \<lceil>25 / 100 * (real (length ss) - 1)\<rceil> \<le> ss ! ((length ss - 1) div 2)"
      using assms(1) i1 by (rule sorted_nth_mono) (simp add: n)
    then have b: "lo \<le> md" using lo2 md1 by simp
    have "nat \<lfloor>75 / 100 * (real (length ss) - 1)\<rfloor> \<le> nat \<lceil>75 / 100 * (real (length ss) - 1)\<rceil>"
      by (intro nat_mono floor_le_ceiling)
    then have "nat \<lfloor>75 / 100 * (real (length ss) - 1)\<rfloor> \<le> length ss - 1"
      using up by (rule order_trans)
    moreover have "length ss - 1 < length ss"
      by (simp add: n)
    ultimately have "nat \<lfloor>75 / 100 * (real (length ss) - 1)\<rfloor> < length ss"
      by (rule le_less_trans)
    then have "ss ! (length ss div 2) \<le> ss ! nat \<lfloor>75 / 100 * (real (length ss) - 1)\<rfloor>"
      using assms(1) i2 by (intro sorted_nth_mono)
    then have c: "md \<le> hi" using md2 hi1 by simp
    show ?thesis using b c by simp
  qed
  show ?thesis
    using a bc d by (intro exI [of _ lo] exI [of _ md] exI [of _ hi]) (simp add: lo md hi)
qed

lemma stats_of_sorted:
  assumes "numericValues cells = map Fin rs" and "rs \<noteq> []"
  shows "\<exists>ss lo md hi. sorted ss \<and> ss \<noteq> [] \<and> set ss = set rs
           \<and> min_val (calculateNumericalStats cells) = Fin (ss ! 0)
           \<and> max_val (calculateNumericalStats cells) = Fin (ss ! (length ss - 1))
           \<and> q1 (calculateNumericalStats cells) = Fin (fixed_value 2 lo)
           \<and> median (calculateNumericalStats cells) = Fin (fixed_value 2 md)
           \<and> q3 (calculateNumericalStats cells) = Fin (fixed_value 2 hi)
           \<and> ss ! 0 \<le> lo \<and> lo \<le> md \<and> md \<le> hi \<and> hi \<le> ss ! (length ss - 1)"
proof -
  obtain ss where ss: "num_sort (map Fin rs) = map Fin ss" and so: "sorted ss"
    and len: "length ss = length rs" and st: "set ss = set rs"
    using num_sort_fin [of rs] by (elim exE conjE)
  have sne: "ss \<noteq> []" using assms(2) len by auto
  obtain lo md hi where lo: "calculatePercentile (map Fin ss) 25 = Fin lo"
    and md: "calculateMedian (map Fin ss) = Fin md"
    and hi: "calculatePercentile (map Fin ss) 75 = Fin hi"
    and ord: "ss ! 0 \<le> lo" "lo \<le> md" "md \<le> hi" "hi \<le> ss ! (length ss - 1)"
    using quartiles_ordered [OF so sne] by (elim exE conjE)
  have i0: "num_index (map Fin ss) 0 = Fin (ss ! 0)"
    using sne by (simp add: num_index_def)
  have i1: "num_index (map Fin ss) (int (length ss) - 1) = Fin (ss ! (length ss - 1))"
    using sne by (simp add: num_index_def nat_diff_distrib')
  have v: "min_val (calculateNumericalStats cells) = Fin (ss ! 0)"
    "max_val (calculateNumericalStats cells) = Fin (ss ! (length ss - 1))"
    "q1 (calculateNumericalStats cells) = Fin (fixed_value 2 lo)"
    "median (calculateNumericalStats cells) = Fin (fixed_value 2 md)"
    "q3 (calculateNumericalStats cells) = Fin (fixed_value 2 hi)"
    using assms(2) i0 i1 by (simp_all add: calculateNumericalStats_def assms(1) ss lo md hi Let_def)
  show ?thesis
    using so sne st v ord by blast
qed

section \<open>The order of the descriptive statistics\<close>

lemma small_value: "js_Number (CStr ''0.00390625'') = Fin (1 / 256)"
  by (simp add: number_of_string_def js_trim_def is_ws_def radix_prefix_def scan_signed_def
      scan_unsigned_def is_digit_def digits_val_def digit_val_def scan_exponent_def scale10_def)

lemma small_values:
  "numericValues [CStr ''0.00390625'', CStr ''0.00390625''] = [Fin (1 / 256), Fin (1 / 256)]"
  by (simp add: numericValues_def small_value isNaN_def del: js_Number.simps)

lemma small_sorted: "num_sort [Fin (1 / 256), Fin (1 / 256)] = [Fin (1 / 256), Fin (1 / 256)]"
  by (simp add: num_sort_def)

lemma small_quartiles:
  "calculatePercentile [Fin (1 / 256), Fin (1 / 256)] 25 = Fin (1 / 256)"
  "calculatePercentile [Fin (1 / 256), Fin (1 / 256)] 75 = Fin (1 / 256)"
  "calculateMedian [Fin (1 / 256), Fin (1 / 256)] = Fin (1 / 256)"
  by (simp_all add: calculatePercentile_def calculateMedian_def num_index_def ceiling_def Let_def)

lemma small_rounded: "js_toFixed 2 (Fin (1 / 256)) = Fin 0"
  by code_simp

text \<open>
  C6, as the claim states it, fails: the quartiles and the median are rounded to two
  decimals, the minimum and the maximum are not. For the column
  \<open>["0.00390625", "0.00390625"]\<close>, whose values are exact in doubles, the minimum is
  \<open>0.00390625\<close> and \<open>q1\<close> is 0, so \<open>min \<le> q1\<close> fails.
\<close>

theorem C6_rounding_counterexample:
  "min_val (calculateNumericalStats [CStr ''0.00390625'', CStr ''0.00390625'']) = Fin (1 / 256)
   \<and> max_val (calculateNumericalStats [CStr ''0.00390625'', CStr ''0.00390625'']) = Fin (1 / 256)
   \<and> q1 (calculateNumericalStats [CStr ''0.00390625'', CStr ''0.00390625'']) = Fin 0
   \<and> median (calculateNumericalStats [CStr ''0.00390625'', CStr ''0.00390625'']) = Fin 0
   \<and> q3 (calculateNumericalStats [CStr ''0.00390625'', CStr ''0.00390625'']) = Fin 0
   \<and> js_gt (min_val (calculateNumericalStats [CStr ''0.00390625'', CStr ''0.00390625'']))
            (q1 (calculateNumericalStats [CStr ''0.00390625'', CStr ''0.00390625'']))
   \<and> \<not> js_le (min_val (calculateNumericalStats [CStr ''0.00390625'', CStr ''0.00390625'']))
              (q1 (calculateNumericalStats [CStr ''0.00390625'', CStr ''0.00390625'']))"
proof -
  have "min_val (calculateNumericalStats [CStr ''0.00390625'', CStr ''0.00390625'']) = Fin (1 / 256)"
    "max_val (calculateNumericalStats [CStr ''0.00390625'', CStr ''0.00390625'']) = Fin (1 / 256)"
    "q1 (calculateNumericalStats [CStr ''0.00390625'', CStr ''0.00390625'']) = Fin 0"
    "median (calculateNumericalStats [CStr ''0.00390625'', CStr ''0.00390625'']) = Fin 0"
    "q3 (calculateNumericalStats [CStr ''0.00390625'', CStr ''0.00390625'']) = Fin 0"
    by (simp_all add: calculateNumericalStats_def small_values small_sorted small_quartiles
        small_rounded num_index_def Let_def del: js_toFixed.simps)
  then show ?thesis by (simp add: js_gt_def)
qed

text \<open>
  C6, amended: for a numerical column whose numeric values are all integers of magnitude at
  most \<open>2^50\<close> the returned statistics satisfy \<open>min \<le> q1 \<le> median \<le> q3 \<le> max\<close>; for
  every numerical column \<open>min \<le> max\<close>; without a numeric value all five are 0. On integers
  of that size every step of the code is exact in doubles: the weights of the interpolation
  are multiples of \<open>1/4\<close>.
\<close>

theorem C6_quartiles_ordered:
  "((\<forall>x \<in> set (numericValues cells). \<exists>k :: int. \<bar>k\<bar> \<le> 2 ^ 50 \<and> x = Fin (real_of_int k)) \<longrightarrow>
       js_le (min_val (calculateNumericalStats cells)) (q1 (calculateNumericalStats cells))
       \<and> js_le (q1 (calculateNumericalStats cells)) (median (calculateNumericalStats cells))
       \<and> js_le (median (calculateNumericalStats cells)) (q3 (calculateNumericalStats cells))
       \<and> js_le (q3 (calculateNumericalStats cells)) (max_val (calculateNumericalStats cells)))
   \<and> js_le (min_val (calculateNumericalStats cells)) (max_val (calculateNumericalStats cells))
   \<and> (numericValues cells = [] \<longrightarrow>
         min_val (calculateNumericalStats cells) = Fin 0 \<and> q1 (calculateNumericalStats cells) = Fin 0
         \<and> median (calculateNumericalStats cells) = Fin 0 \<and> q3 (calculateNumericalStats cells) = Fin 0
         \<and> max_val (calculateNumericalStats cells) = Fin 0)"
proof (intro conjI impI)
  assume h: "\<forall>x \<in> set (numericValues cells). \<exists>k :: int. \<bar>k\<bar> \<le> 2 ^ 50 \<and> x = Fin (real_of_int k)"
  let ?chain = "js_le (min_val (calculateNumericalStats cells)) (q1 (calculateNumericalStats cells))
       \<and> js_le (q1 (calculateNumericalStats cells)) (median (calculateNumericalStats cells))
       \<and> js_le (median (calculateNumericalStats cells)) (q3 (calculateNumericalStats cells))
       \<and> js_le (q3 (calculateNumericalStats cells)) (max_val (calculateNumericalStats cells))"
  have chain: ?chain
  proof (cases "numericValues cells = []")
    case True
    then show ?thesis
      by (simp add: calculateNumericalStats_def)
  next
    case False
    define rs where "rs = map (\<lambda>x. case x of Fin r \<Rightarrow> r | _ \<Rightarrow> 0) (numericValues cells)"
    have "map Fin rs = map (\<lambda>x. x) (numericValues cells)"
      unfolding rs_def map_map using h by (intro map_cong) auto
    then have rs: "numericValues cells = map Fin rs"
      by simp
    have ne: "rs \<noteq> []"
      using False rs by auto
    have ints: "\<forall>r \<in> set rs. \<exists>k :: int. r = real_of_int k"
      using h unfolding rs by auto
    obtain ss lo md hi where sne: "ss \<noteq> []" and st: "set ss = set rs"
      and v: "min_val (calculateNumericalStats cells) = Fin (ss ! 0)"
        "max_val (calculateNumericalStats cells) = Fin (ss ! (length ss - 1))"
        "q1 (calculateNumericalStats cells) = Fin (fixed_value 2 lo)"
        "median (calculateNumericalStats cells) = Fin (fixed_value 2 md)"
        "q3 (calculateNumericalStats cells) = Fin (fixed_value 2 hi)"
      and ord: "ss ! 0 \<le> lo" "lo \<le> md" "md \<le> hi" "hi \<le> ss ! (length ss - 1)"
      using stats_of_sorted [OF rs ne] by (elim exE conjE)
    have "ss ! 0 \<in> set rs" "ss ! (length ss - 1) \<in> set rs"
      using sne st by (auto simp add: nth_mem simp flip: st)
    then obtain a b :: int where ab: "ss ! 0 = real_of_int a" "ss ! (length ss - 1) = real_of_int b"
      using ints by blast
    have fa: "fixed_value 2 (ss ! 0) = ss ! 0"
      unfolding ab(1) by (rule fixed_value_int)
    have fb: "fixed_value 2 (ss ! (length ss - 1)) = ss ! (length ss - 1)"
      unfolding ab(2) by (rule fixed_value_int)
    have lo': "ss ! 0 \<le> fixed_value 2 lo"
      using fixed_value_mono [OF ord(1), of 2] by (simp only: fa)
    have hi': "fixed_value 2 hi \<le> ss ! (length ss - 1)"
      using fixed_value_mono [OF ord(4), of 2] by (simp only: fb)
    show ?thesis
      using lo' hi' fixed_value_mono [OF ord(2), of 2] fixed_value_mono [OF ord(3), of 2]
      by (simp add: v)
  qed
  show "js_le (min_val (calculateNumericalStats cells)) (q1 (calculateNumericalStats cells))"
    "js_le (q1 (calculateNumericalStats cells)) (median (calculateNumericalStats cells))"
    "js_le (median (calculateNumericalStats cells)) (q3 (calculateNumericalStats cells))"
    "js_le (q3 (calculateNumericalStats cells)) (max_val (calculateNumericalStats cells))"
    using chain by simp_all
next
  show "js_le (min_val (calculateNumericalStats cells)) (max_val (calculateNumericalStats cells))"
    by (rule minimum_le_maximum)
next
  assume "numericValues cells = []"
  then show "min_val (calculateNumericalStats cells) = Fin 0" "q1 (calculateNumericalStats cells) = Fin 0"
    "median (calculateNumericalStats cells) = Fin 0" "q3 (calculateNumericalStats cells) = Fin 0"
    "max_val (calculateNumericalStats cells) = Fin 0"
    by (simp_all add: calculateNumericalStats_def)
qed

lemma integer_values:
  "numericValues [CStr ''1'', CStr ''2'', CStr ''4'', CStr ''7''] = [Fin 1, Fin 2, Fin 4, Fin 7]"
  by code_simp

theorem C6_quartiles_ordered_witness:
  "list_all (\<lambda>x. \<exists>k :: int. \<bar>k\<bar> \<le> 2 ^ 50 \<and> x = Fin (real_of_int k))
     (numericValues [CStr ''1'', CStr ''2'', CStr ''4'', CStr ''7''])
   \<and> js_le (min_val (calculateNumericalStats [CStr ''1'', CStr ''2'', CStr ''4'', CStr ''7'']))
           (q1 (calculateNumericalStats [CStr ''1'', CStr ''2'', CStr ''4'', CStr ''7'']))
   \<and> js_le (q1 (calculateNumericalStats [CStr ''1'', CStr ''2'', CStr ''4'', CStr ''7'']))
           (median (calculateNumericalStats [CStr ''1'', CStr ''2'', CStr ''4'', CStr ''7'']))
   \<and> js_le (median (calculateNumericalStats [CStr ''1'', CStr ''2'', CStr ''4'', CStr ''7'']))
           (q3 (calculateNumericalStats [CStr ''1'', CStr ''2'', CStr ''4'', CStr ''7'']))
   \<and> js_le (q3 (calculateNumericalStats [CStr ''1'', CStr ''2'', CStr ''4'', CStr ''7'']))
           (max_val (calculateNumericalStats [CStr ''1'', CStr ''2'', CStr ''4'', CStr ''7'']))
   \<and> numericValues [CNull] = []
   \<and> median (calculateNumericalStats [CNull]) = Fin 0"
proof -
  have k: "\<exists>k :: int. \<bar>k\<bar> \<le> 2 ^ 50 \<and> Fin 1 = Fin (real_of_int k)"
    "\<exists>k :: int. \<bar>k\<bar> \<le> 2 ^ 50 \<and> Fin 2 = Fin (real_of_int k)"
    "\<exists>k :: int. \<bar>k\<bar> \<le> 2 ^ 50 \<and> Fin 4 = Fin (real_of_int k)"
    "\<exists>k :: int. \<bar>k\<bar> \<le> 2 ^ 50 \<and> Fin 7 = Fin (real_of_int k)"
    by (rule exI [of _ 1], simp, rule exI [of _ 2], simp, rule exI [of _ 4], simp,
        rule exI [of _ 7], simp)
  have h: "\<forall>x \<in> set (numericValues [CStr ''1'', CStr ''2'', CStr ''4'', CStr ''7'']).
             \<exists>k :: int. \<bar>k\<bar> \<le> 2 ^ 50 \<and> x = Fin (real_of_int k)"
    using k by (simp add: integer_values)
  have e: "numericValues [CNull] = []"
    by code_simp
  show ?thesis
    using h e C6_quartiles_ordered [of "[CStr ''1'', CStr ''2'', CStr ''4'', CStr ''7'']"]
      C6_quartiles_ordered [of "[CNull]"]
    by (simp add: list_all_iff)
qed

section \<open>A second cleaning pass\<close>

lemma infinity_table_cleaned:
  "cleanData isoDate infinity_table
     = Inr (\<lparr>totalRows = 3, totalColumns = 3,
             columns = [\<lparr>name = ''id'', ctype = Numerical, vals = [CStr ''1'', CStr ''2'', CStr ''3''],
                         missingCount = 0, missingRate = Fin 0\<rparr>,
                        \<lparr>name = ''price'', ctype = Numerical,
                         vals = [CNum PInf, CNum NInf, CNum NaN],
                         missingCount = 0, missingRate = Fin 0\<rparr>,
                        \<lparr>name = ''nettoyage_effectue'', ctype = Categorical,
                         vals = [CBool True, CBool True, CBool True],
                         missingCount = 0, missingRate = Fin 0\<rparr>],
             fileName = ''prices.csv''\<rparr>,
            \<lparr>totalRowsCleaned = 3,
             columnReports = [\<lparr>columnName = ''id'', originalType = Numerical, finalType = Numerical,
                               missingValuesImputed = 0, erroneousValuesFixed = 0,
                               typeConverted = False, imputationMethod = Some ''median''\<rparr>,
                              \<lparr>columnName = ''price'', originalType = Numerical,
                               finalType = Numerical,
                               missingValuesImputed = 1, erroneousValuesFixed = 0,
                               typeConverted = True, imputationMethod = Some ''median''\<rparr>],
             summary_missingValuesImputed = 1, summary_erroneousValuesFixed = 0,
             summary_typesConverted = 1\<rparr>)"
  by code_simp

lemma infinity_table_cleaned_twice:
  "cleanData isoDate
      \<lparr>totalRows = 3, totalColumns = 3,
       columns = [\<lparr>name = ''id'', ctype = Numerical, vals = [CStr ''1'', CStr ''2'', CStr ''3''],
                   missingCount = 0, missingRate = Fin 0\<rparr>,
                  \<lparr>name = ''price'', ctype = Numerical,
                   vals = [CNum PInf, CNum NInf, CNum NaN],
                   missingCount = 0, missingRate = Fin 0\<rparr>,
                  \<lparr>name = ''nettoyage_effectue'', ctype = Categorical,
                   vals = [CBool True, CBool True, CBool True],
                   missingCount = 0, missingRate = Fin 0\<rparr>],
       fileName = ''prices.csv''\<rparr>
     = Inr (\<lparr>totalRows = 3, totalColumns = 4,
             columns = [\<lparr>name = ''id'', ctype = Numerical, vals = [CStr ''1'', CStr ''2'', CStr ''3''],
                         missingCount = 0, missingRate = Fin 0\<rparr>,
                        \<lparr>name = ''price'', ctype = Numerical,
                         vals = [CNum PInf, CNum NInf, CNum NaN],
                         missingCount = 0, missingRate = Fin 0\<rparr>,
                        \<lparr>name = ''nettoyage_effectue'', ctype = Categorical,
                         vals = [CBool True, CBool True, CBool True],
                         missingCount = 0, missingRate = Fin 0\<rparr>,
                        \<lparr>name = ''nettoyage_effectue'', ctype = Categorical,
                         vals = [CBool False, CBool False, CBool True],
                         missingCount = 0, missingRate = Fin 0\<rparr>],
             fileName = ''prices.csv''\<rparr>,
            \<lparr>totalRowsCleaned = 1,
             columnReports = [\<lparr>columnName = ''id'', originalType = Numerical, finalType = Numerical,
                               missingValuesImputed = 0, erroneousValuesFixed = 0,
                               typeConverted = False, imputationMethod = Some ''median''\<rparr>,
                              \<lparr>columnName = ''price'', originalType = Numerical,
                               finalType = Numerical,
                               missingValuesImputed = 1, erroneousValuesFixed = 0,
                               typeConverted = True, imputationMethod = Some ''median''\<rparr>,
                              \<lparr>columnName = ''nettoyage_effectue'', originalType = Categorical,
                               finalType = Categorical,
                               missingValuesImputed = 0, erroneousValuesFixed = 0,
                               typeConverted = False, imputationMethod = Some ''mode''\<rparr>],
             summary_missingValuesImputed = 1, summary_erroneousValuesFixed = 0,
             summary_typesConverted = 1\<rparr>)"
  by code_simp

text \<open>
  C8: a second cleaning pass is meant to impute nothing. For the table with the columns
  \<open>id = ["1", "2", "3"]\<close> and \<open>price = ["Infinity", "-Infinity", ""]\<close> the first pass converts
  the prices to the two infinities and imputes the empty cell with their median, which is
  \<open>(-Infinity + Infinity) / 2 = NaN\<close>. The second pass converts the column again: \<open>NaN\<close>
  prints as \<open>"NaN"\<close>, which \<open>parseFloat\<close> does not read, so the cell becomes \<open>null\<close> and
  is imputed once more. The second report counts one imputed value.
\<close>

theorem C8_second_pass_imputes:
  "\<exists>ct rep ct2 rep2.
      cleanData isoDate infinity_table = Inr (ct, rep)
      \<and> map vals (columns ct)
          = [[CStr ''1'', CStr ''2'', CStr ''3''], [CNum PInf, CNum NInf, CNum NaN],
             [CBool True, CBool True, CBool True]]
      \<and> summary_missingValuesImputed rep = 1
      \<and> cleanData isoDate ct = Inr (ct2, rep2)
      \<and> map missingValuesImputed (columnReports rep2) = [0, 1, 0]
      \<and> summary_missingValuesImputed rep2 = 1"
  by (simp add: infinity_table_cleaned infinity_table_cleaned_twice)

theorem C8_second_pass_imputes_witness:
  "\<exists>ct rep ct2 rep2.
      cleanData (\<lambda>v. None) infinity_table = Inr (ct, rep)
      \<and> cleanData (\<lambda>v. None) ct = Inr (ct2, rep2)
      \<and> summary_missingValuesImputed rep2 \<noteq> 0"
  using C8_second_pass_imputes [of "\<lambda>v. None"] by auto

end
